theory Spec2Isabelle
  imports Main "HOL-Library.Char_ord" "HOL-Library.List_Lexorder"
begin

section \<open>Python string primitives used by \<^verbatim>\<open>setuptools_download.py\<close>\<close>

text \<open>
  A Python \<^verbatim>\<open>str\<close> is modelled as a \<^typ>\<open>string\<close> whose characters are the code points
  below 256.  The character classes below are those of CPython restricted to that range.
\<close>

text \<open>\<^verbatim>\<open>str.isspace\<close> on one character: the white space that \<^verbatim>\<open>strip()\<close> and
  \<^verbatim>\<open>split()\<close> remove.\<close>

definition isspace :: "char \<Rightarrow> bool" where
  "isspace c \<longleftrightarrow> c \<in> set [CHR 0x09, CHR 0x0A, CHR 0x0B, CHR 0x0C, CHR 0x0D,
     CHR 0x1C, CHR 0x1D, CHR 0x1E, CHR 0x1F, CHR 0x20, CHR 0x85, CHR 0xA0]"

text \<open>The line boundaries of \<^verbatim>\<open>str.splitlines\<close>.\<close>

definition islinebreak :: "char \<Rightarrow> bool" where
  "islinebreak c \<longleftrightarrow> c \<in> set [CHR 0x0A, CHR 0x0B, CHR 0x0C, CHR 0x0D,
     CHR 0x1C, CHR 0x1D, CHR 0x1E, CHR 0x85]"

text \<open>\<^verbatim>\<open>s.startswith(p)\<close> and \<^verbatim>\<open>s.endswith(p)\<close>.\<close>

definition startswith :: "string \<Rightarrow> string \<Rightarrow> bool" where
  "startswith s p \<longleftrightarrow> take (length p) s = p"

definition endswith :: "string \<Rightarrow> string \<Rightarrow> bool" where
  "endswith s p \<longleftrightarrow> drop (length s - length p) s = p"

text \<open>\<^verbatim>\<open>sub in s\<close>.\<close>

fun contains :: "string \<Rightarrow> string \<Rightarrow> bool" where
  "contains sub [] \<longleftrightarrow> sub = []"
| "contains sub (c # cs) \<longleftrightarrow> startswith (c # cs) sub \<or> contains sub cs"

text \<open>\<^verbatim>\<open>s.strip()\<close>.\<close>

definition str_strip :: "string \<Rightarrow> string" where
  "str_strip s = rev (dropWhile isspace (rev (dropWhile isspace s)))"

text \<open>\<^verbatim>\<open>s.split()\<close>: the maximal runs of characters that are not white space.  The first
  argument is the token being read.\<close>

fun split_ws :: "string \<Rightarrow> string \<Rightarrow> string list" where
  "split_ws cur [] = (if cur = [] then [] else [cur])"
| "split_ws cur (c # cs) =
     (if isspace c then (if cur = [] then split_ws [] cs else cur # split_ws [] cs)
      else split_ws (cur @ [c]) cs)"

definition str_split_ws :: "string \<Rightarrow> string list" where
  "str_split_ws s = split_ws [] s"

text \<open>\<^verbatim>\<open>s.split(sep)\<close> for a separator that is not empty: the occurrences of the separator are
  taken from the left, without overlap.\<close>

function split_sep :: "string \<Rightarrow> string \<Rightarrow> string \<Rightarrow> string list" where
  "split_sep sep cur [] = [cur]"
| "split_sep sep cur (c # cs) =
     (if sep \<noteq> [] \<and> startswith (c # cs) sep
      then cur # split_sep sep [] (drop (length sep) (c # cs))
      else split_sep sep (cur @ [c]) cs)"
  by pat_completeness auto
termination
  by (relation "measure (\<lambda>(sep, cur, s). length s)") auto

definition str_split :: "string \<Rightarrow> string \<Rightarrow> string list" where
  "str_split sep s = split_sep sep [] s"

text \<open>\<^verbatim>\<open>line.split('=', 1)\<close>: at most one cut, at the first \<^verbatim>\<open>=\<close>.\<close>

definition str_split_eq1 :: "string \<Rightarrow> string list" where
  "str_split_eq1 line =
     (case dropWhile (\<lambda>c. c \<noteq> CHR ''='') line of
        [] \<Rightarrow> [line]
      | _ # rest \<Rightarrow> [takeWhile (\<lambda>c. c \<noteq> CHR ''='') line, rest])"

text \<open>\<^verbatim>\<open>s.splitlines()\<close>: a carriage return followed by a line feed is one boundary, and
  no empty line follows the last boundary.\<close>

function splitlines_from :: "string \<Rightarrow> string \<Rightarrow> string list" where
  "splitlines_from cur [] = (if cur = [] then [] else [cur])"
| "splitlines_from cur (c # cs) =
     (if c = CHR 0x0D \<and> startswith cs [CHR 0x0A] then cur # splitlines_from [] (drop 1 cs)
      else if islinebreak c then cur # splitlines_from [] cs
      else splitlines_from (cur @ [c]) cs)"
  by pat_completeness auto
termination
  by (relation "measure (\<lambda>(cur, s). length s)") auto

definition str_splitlines :: "string \<Rightarrow> string list" where
  "str_splitlines s = splitlines_from [] s"

text \<open>\<^verbatim>\<open>sep.join(xs)\<close>.\<close>

fun str_join :: "string \<Rightarrow> string list \<Rightarrow> string" where
  "str_join sep [] = []"
| "str_join sep [x] = x"
| "str_join sep (x # y # ys) = x @ sep @ str_join sep (y # ys)"

text \<open>\<^verbatim>\<open>repr(s)\<close>, which the format conversions \<^verbatim>\<open>{x!r}\<close> and \<^verbatim>\<open>{x=}\<close> call.  The string is
  quoted with \<^verbatim>\<open>'\<close>, or with \<^verbatim>\<open>"\<close> when it holds a \<^verbatim>\<open>'\<close> and no \<^verbatim>\<open>"\<close>; the quote and the
  backslash are escaped, and the characters that are not printable are written as escapes.\<close>

definition hexdigit :: "nat \<Rightarrow> char" where
  "hexdigit n = ''0123456789abcdef'' ! (n mod 16)"

definition isprintable :: "char \<Rightarrow> bool" where
  "isprintable c \<longleftrightarrow>
     (let n = (of_char c :: nat) in (32 \<le> n \<and> n < 127) \<or> (161 \<le> n \<and> n \<noteq> 173))"

definition repr_char :: "char \<Rightarrow> char \<Rightarrow> string" where
  "repr_char quote c =
     (if c = quote \<or> c = CHR 0x5C then [CHR 0x5C, c]
      else if c = CHR 0x09 then [CHR 0x5C, CHR ''t'']
      else if c = CHR 0x0A then [CHR 0x5C, CHR ''n'']
      else if c = CHR 0x0D then [CHR 0x5C, CHR ''r'']
      else if \<not> isprintable c
        then [CHR 0x5C, CHR ''x'', hexdigit (of_char c div 16), hexdigit (of_char c)]
      else [c])"

definition str_repr :: "string \<Rightarrow> string" where
  "str_repr s =
     (let quote = (if CHR 0x27 \<in> set s \<and> CHR 0x22 \<notin> set s then CHR 0x22 else CHR 0x27)
      in [quote] @ concat (map (repr_char quote) s) @ [quote])"

section \<open>Environment keys and markers\<close>

text \<open>The exceptions the module raises, each with its message.\<close>

datatype error = NotImplementedError string | ValueError string | TypeError string

text \<open>\<^verbatim>\<open>_Key = enum.Enum('_Key', 'os_name sys_platform platform_machine _internal')\<close>; the
  member \<^verbatim>\<open>_internal\<close> is written \<open>internal\<close>.  \<open>Key_members\<close> is \<^verbatim>\<open>_Key.__members__\<close>.\<close>

datatype Key = os_name | sys_platform | platform_machine | internal

definition Key_members :: "(string \<times> Key) list" where
  "Key_members = [(''os_name'', os_name), (''sys_platform'', sys_platform),
     (''platform_machine'', platform_machine), (''_internal'', internal)]"

definition KEY_DISPLAY :: string where
  "KEY_DISPLAY =
     ''('' @ str_join ''|'' (filter (\<lambda>k. k \<noteq> ''_internal'') (map fst Key_members)) @ '')''"

text \<open>The three values \<^verbatim>\<open>os.name\<close>, \<^verbatim>\<open>sys.platform\<close> and \<^verbatim>\<open>platform.machine()\<close> of the
  running interpreter, which \<^verbatim>\<open>_default_env\<close> and \<^verbatim>\<open>_filter\<close> read.\<close>

record host =
  os_dot_name :: string
  sys_dot_platform :: string
  platform_dot_machine :: string

fun default_env :: "host \<Rightarrow> Key \<Rightarrow> string" where
  "default_env h os_name = os_dot_name h"
| "default_env h sys_platform = sys_dot_platform h"
| "default_env h platform_machine = platform_dot_machine h"
| "default_env h internal = ''hellohello''"

record Marker =
  orig :: string
  parts :: "(Key \<times> string) list"

definition evaluate :: "Marker \<Rightarrow> (Key \<Rightarrow> string) \<Rightarrow> bool" where
  "evaluate m env = list_all (\<lambda>(k, v). env k = v) (parts m)"

definition invalid_marker_part :: "string \<Rightarrow> error" where
  \<open>invalid_marker_part chunk =
     ValueError (''invalid marker part: '' @ ''expected: `'' @ KEY_DISPLAY @ '' == "..."` got: `''
       @ chunk @ ''`'')\<close>

text \<open>The body of the loop of \<^verbatim>\<open>Marker.parse\<close> over one chunk: the checks, then the pair
  \<^verbatim>\<open>(_Key[parts[0]], parts[2][1:-1])\<close>.\<close>

definition parse_chunk :: "string \<Rightarrow> error + (Key \<times> string)" where
  \<open>parse_chunk chunk =
     (case str_split_ws chunk of
        [p0, p1, p2] \<Rightarrow>
          (case map_of Key_members p0 of
             None \<Rightarrow> Inl (invalid_marker_part chunk)
           | Some k \<Rightarrow>
               if p1 \<noteq> ''=='' \<or> \<not> startswith p2 ''"'' \<or> \<not> endswith p2 ''"''
               then Inl (invalid_marker_part chunk)
               else Inr (k, drop 1 (take (length p2 - 1) p2)))
      | _ \<Rightarrow> Inl (invalid_marker_part chunk))\<close>

fun parse_chunks :: "(Key \<times> string) list \<Rightarrow> string list \<Rightarrow> error + (Key \<times> string) list" where
  "parse_chunks ret [] = Inr ret"
| "parse_chunks ret (chunk # chunks) =
     (case parse_chunk chunk of
        Inl e \<Rightarrow> Inl e
      | Inr p \<Rightarrow> parse_chunks (ret @ [p]) chunks)"

definition Marker_parse :: "string \<Rightarrow> error + Marker" where
  \<open>Marker_parse s =
     (if contains '' or '' s
      then Inl (NotImplementedError ''Marker only supports `and` -- maybe repeat `marker =`?'')
      else (case parse_chunks [] (str_split '' and '' s) of
              Inl e \<Rightarrow> Inl e
            | Inr ret \<Rightarrow> Inr \<lparr>orig = s, parts = ret\<rparr>))\<close>

section \<open>Archives and file descriptors\<close>

text \<open>The extraction functions are named only; \<open>EXTRACT\<close> is the table \<^verbatim>\<open>_EXTRACT\<close>.\<close>

datatype extractor = extract_noop | extract_tar | extract_zip

definition EXTRACT :: "(string \<times> extractor) list" where
  "EXTRACT = [(''noop'', extract_noop), (''tar'', extract_tar), (''zip'', extract_zip)]"

text \<open>\<^verbatim>\<open>Archive\<close>; its field \<^verbatim>\<open>path\<close> is written \<open>archive_path\<close>, as \<^verbatim>\<open>File\<close> has a field
  \<^verbatim>\<open>path\<close> too.\<close>

record Archive =
  strategy :: string
  archive_path :: string

definition Archive_default :: Archive where
  "Archive_default = \<lparr>strategy = ''noop'', archive_path = []\<rparr>"

record File =
  path :: string
  url :: string
  sha256 :: string
  archive :: Archive
  group :: "string option"
  markers :: "Marker list"

section \<open>The manifest parser\<close>

text \<open>
  \<^verbatim>\<open>_SECTION = re.compile(r'^\[([^]\n]+)\]$', re.MULTILINE)\<close>.  With \<^verbatim>\<open>MULTILINE\<close> the
  anchors match at the line feeds only, and the pattern holds no line feed, so a match is a
  whole line (of \<^verbatim>\<open>s.split('\n')\<close>) that is \<^verbatim>\<open>[\<close>, then one or more characters other than
  \<^verbatim>\<open>]\<close>, then \<^verbatim>\<open>]\<close>.  \<^verbatim>\<open>_SECTION.split\<close> returns the text before the first match, and for
  each match its group and the text up to the next match.
\<close>

fun lines_nl :: "string \<Rightarrow> string \<Rightarrow> string list" where
  "lines_nl cur [] = [cur]"
| "lines_nl cur (c # cs) =
     (if c = CHR 0x0A then cur # lines_nl [] cs else lines_nl (cur @ [c]) cs)"

definition is_header :: "string \<Rightarrow> bool" where
  "is_header l \<longleftrightarrow>
     (case l of
        [] \<Rightarrow> False
      | c # r \<Rightarrow> c = CHR ''['' \<and> r \<noteq> [] \<and> last r = CHR '']'' \<and> butlast r \<noteq> [] \<and>
          CHR '']'' \<notin> set (butlast r))"

definition header_name :: "string \<Rightarrow> string" where
  "header_name l = butlast (tl l)"

fun split_headers :: "string \<Rightarrow> string list \<Rightarrow> string list" where
  "split_headers cur [] = [cur]"
| "split_headers cur [l] = (if is_header l then [cur, header_name l, []] else [cur @ l])"
| "split_headers cur (l # l' # ls) =
     (if is_header l then cur # header_name l # split_headers [CHR 0x0A] (l' # ls)
      else split_headers (cur @ l @ [CHR 0x0A]) (l' # ls))"

definition SECTION_split :: "string \<Rightarrow> string list" where
  "SECTION_split s = split_headers [] (lines_nl [] s)"

text \<open>\<^verbatim>\<open>bool(x)\<close> and \<^verbatim>\<open>repr(x)\<close> for \<^verbatim>\<open>x: str | None\<close>.\<close>

fun truthy :: "string option \<Rightarrow> bool" where
  "truthy None \<longleftrightarrow> False"
| "truthy (Some s) \<longleftrightarrow> s \<noteq> []"

fun repr_opt :: "string option \<Rightarrow> string" where
  "repr_opt None = ''None''"
| "repr_opt (Some s) = str_repr s"

definition known_keys :: "string list" where
  "known_keys = [''url'', ''sha256'', ''extract'', ''extract_path'', ''group'']"

text \<open>The inner loop of \<^verbatim>\<open>_parse\<close> over the lines of one section: the dictionary
  \<^verbatim>\<open>values\<close> and the list \<^verbatim>\<open>markers\<close> are the state.  A line without \<^verbatim>\<open>=\<close> fails in the
  unpacking \<^verbatim>\<open>k, v = line.split('=', 1)\<close>.\<close>

fun parse_lines :: "string \<Rightarrow> string \<Rightarrow> (string \<rightharpoonup> string) \<Rightarrow> Marker list \<Rightarrow> string list
    \<Rightarrow> error + ((string \<rightharpoonup> string) \<times> Marker list)" where
  "parse_lines section pth vals mks [] = Inr (vals, mks)"
| "parse_lines section pth vals mks (line # lines) =
     (case str_split_eq1 line of
        [k0, v0] \<Rightarrow>
          (let k = str_strip k0; v = str_strip v0 in
           if k = ''marker'' then
             (case Marker_parse v of
                Inl e \<Rightarrow> Inl e
              | Inr m \<Rightarrow> parse_lines section pth vals (mks @ [m]) lines)
           else if k \<in> set known_keys then
             (if vals k \<noteq> None
              then Inl (ValueError (section @ ''['' @ pth @ '']'' @ k @ '': duplicate key''))
              else parse_lines section pth (vals(k \<mapsto> v)) mks lines)
           else Inl (ValueError (section @ ''['' @ pth @ '']'' @ k @ '': unexpected key'')))
      | _ \<Rightarrow> Inl (ValueError ''not enough values to unpack (expected 2, got 1)''))"

text \<open>The checks after the lines of a section, and the descriptor.\<close>

definition make_file :: "string \<Rightarrow> string \<Rightarrow> (string \<rightharpoonup> string) \<Rightarrow> Marker list \<Rightarrow> error + File" where
  "make_file section pth vals mks =
     (let extract = vals ''extract''; extract_path = vals ''extract_path'';
          grp = vals ''group''
      in case (vals ''url'', vals ''sha256'') of
           (Some u, Some h) \<Rightarrow>
             if truthy extract \<noteq> truthy extract_path
             then Inl (ValueError (section @ ''['' @ pth @
                    '']: missing `extract` + `extract_path`''))
             else if extract \<noteq> None \<and> extract \<notin> set (map (Some \<circ> fst) EXTRACT)
             then Inl (ValueError (section @ ''['' @ pth @ '']extract: unexpected value '' @
                    repr_opt extract @ '', ('' @
                    str_join '', '' (sort (remdups (filter (\<lambda>k. k \<noteq> ''noop'') (map fst EXTRACT))))
                    @ '')''))
             else if truthy grp \<noteq> (mks \<noteq> [])
             then Inl (ValueError (section @ ''['' @ pth @ '']: missing `group` + `marker`''))
             else Inr \<lparr>path = pth, url = u, sha256 = h,
                    archive = (case (extract, extract_path) of
                                 (Some e, Some p) \<Rightarrow> \<lparr>strategy = e, archive_path = p\<rparr>
                               | _ \<Rightarrow> Archive_default),
                    group = grp, markers = mks\<rparr>
         | _ \<Rightarrow> Inl (ValueError (section @ ''['' @ pth @ '']: missing `url` + `sha256`'')))"

definition parse_section :: "string \<Rightarrow> string \<Rightarrow> string \<Rightarrow> error + File" where
  "parse_section section pth body =
     (case parse_lines section pth Map.empty [] (str_splitlines (str_strip body)) of
        Inl e \<Rightarrow> Inl e
      | Inr (vals, mks) \<Rightarrow> make_file section pth vals mks)"

text \<open>The outer loop over \<^verbatim>\<open>zip(parts, parts)\<close>: the pieces taken two at a time.\<close>

fun parse_sections :: "string \<Rightarrow> File list \<Rightarrow> string list \<Rightarrow> error + File list" where
  "parse_sections section ret (pth # body # rest) =
     (case parse_section section pth body of
        Inl e \<Rightarrow> Inl e
      | Inr f \<Rightarrow> parse_sections section (ret @ [f]) rest)"
| "parse_sections section ret _ = Inr ret"

text \<open>\<^verbatim>\<open>_parse\<close>.  The split always has a first piece (\<open>SECTION_split_nonempty\<close> below), so
  \<^verbatim>\<open>next(parts)\<close> returns and the first case of the model is never taken.\<close>

definition parse :: "string option \<Rightarrow> string \<Rightarrow> error + File list" where
  "parse s section =
     (case SECTION_split (str_strip (case s of None \<Rightarrow> [] | Some t \<Rightarrow> t)) of
        [] \<Rightarrow> Inr []
      | junk # rest \<Rightarrow>
          if junk \<noteq> [] then Inl (ValueError (section @ '': unexpected value: '' @ str_repr junk))
          else parse_sections section [] rest)"

section \<open>The platform filter\<close>

text \<open>The second loop of \<^verbatim>\<open>_filter\<close>, over the selected descriptors: the sets \<^verbatim>\<open>seen\<close> and
  \<^verbatim>\<open>seen_groups\<close> are the state, and the loop returns \<^verbatim>\<open>seen_groups\<close>.\<close>

fun scan :: "string \<Rightarrow> string set \<Rightarrow> string set \<Rightarrow> File list \<Rightarrow> error + string set" where
  "scan section seen seen_groups [] = Inr seen_groups"
| "scan section seen seen_groups (f # fs) =
     (if path f \<in> seen
      then Inl (ValueError (section @ '': '' @ path f @ '' matched multiple times!''))
      else (case group f of
              None \<Rightarrow> scan section (insert (path f) seen) seen_groups fs
            | Some g \<Rightarrow>
                if g \<in> seen_groups
                then Inl (ValueError (section @ '': group='' @ g @ '' matched multiple times!''))
                else scan section (insert (path f) seen) (insert g seen_groups) fs))"

text \<open>The third loop, over the sorted group names of the whole input.\<close>

fun check_groups :: "host \<Rightarrow> string set \<Rightarrow> string list \<Rightarrow> error + unit" where
  "check_groups h seen_groups [] = Inr ()"
| "check_groups h seen_groups (g # gs) =
     (if g \<notin> seen_groups
      then Inl (ValueError (''`'' @ g @ ''` is not supported on your platform'' @ [CHR 0x0A, CHR 0x0A]
             @ ''(debug info):'' @ [CHR 0x0A]
             @ ''- os_name='' @ str_repr (os_dot_name h) @ [CHR 0x0A]
             @ ''- sys_platform='' @ str_repr (sys_dot_platform h) @ [CHR 0x0A]
             @ ''- platform_machine='' @ str_repr (platform_dot_machine h)))
      else check_groups h seen_groups gs)"

text \<open>\<^verbatim>\<open>_filter\<close>, with the host whose values \<^verbatim>\<open>_default_env\<close> reads as an argument.\<close>

definition filter' :: "host \<Rightarrow> File list \<Rightarrow> string \<Rightarrow> error + File list" where
  "filter' h src section =
     (let env = default_env h;
          ret = [f \<leftarrow> src. markers f = [] \<or> list_ex (\<lambda>m. evaluate m env) (markers f)]
      in case scan section {} {} ret of
           Inl e \<Rightarrow> Inl e
         | Inr seen_groups \<Rightarrow>
             (case check_groups h seen_groups (sort (remdups (List.map_filter group src))) of
                Inl e \<Rightarrow> Inl e
              | Inr _ \<Rightarrow> Inr ret))"

section \<open>The digest check of the fetch pipeline\<close>

text \<open>\<^verbatim>\<open>secrets.compare_digest(a, b)\<close> on two \<^verbatim>\<open>str\<close>: it refuses a string that is not ASCII
  with a \<^verbatim>\<open>TypeError\<close>, and otherwise says whether the two strings are equal.\<close>

definition isascii :: "char \<Rightarrow> bool" where
  "isascii c \<longleftrightarrow> (of_char c :: nat) < 128"

definition compare_digest :: "string \<Rightarrow> string \<Rightarrow> error + bool" where
  "compare_digest a b =
     (if list_all isascii a \<and> list_all isascii b then Inr (a = b)
      else Inl (TypeError ''comparing strings with non-ASCII characters is not supported''))"

text \<open>
  \<^verbatim>\<open>_download\<close> from the response body to the check of the digest.  The body \<open>contents\<close>
  that \<^verbatim>\<open>req.read()\<close> returned is an argument, and so is the function \<open>hexdigest\<close> that
  stands for \<^verbatim>\<open>hashlib.sha256(contents).hexdigest()\<close>; a byte is a \<^typ>\<open>char\<close>.  The result is
  the body that goes on to the extraction.
\<close>

definition download_check :: "(string \<Rightarrow> string) \<Rightarrow> File \<Rightarrow> string \<Rightarrow> error + string" where
  "download_check hexdigest f contents =
     (let got = hexdigest contents
      in case compare_digest got (sha256 f) of
           Inl e \<Rightarrow> Inl e
         | Inr same \<Rightarrow>
             if \<not> same
             then Inl (ValueError (path f @ '': checksum mismatch got='' @ str_repr got @
                    '' f.sha256='' @ str_repr (sha256 f)))
             else Inr contents)"

section \<open>Notions of the specification\<close>

text \<open>Equality of two hexadecimal strings when the case of the letters is ignored.\<close>

definition lower :: "char \<Rightarrow> char" where
  "lower c = (if CHR ''A'' \<le> c \<and> c \<le> CHR ''Z'' then char_of (of_char c + (32::nat)) else c)"

definition same_hex_ignoring_case :: "string \<Rightarrow> string \<Rightarrow> bool" where
  "same_hex_ignoring_case a b \<longleftrightarrow> map lower a = map lower b"

text \<open>The group names of a sequence of descriptors, in order:
  \<^verbatim>\<open>f.group for f in src if f.group is not None\<close>.\<close>

abbreviation groups_of :: "File list \<Rightarrow> string list" where
  "groups_of src \<equiv> List.map_filter group src"

text \<open>A descriptor applies to an environment when it has no marker, or when one of its
  markers holds: each of its pairs is the value of the environment at that key.\<close>

definition applies :: "(Key \<Rightarrow> string) \<Rightarrow> File \<Rightarrow> bool" where
  "applies env f \<longleftrightarrow>
     markers f = [] \<or> (\<exists>m \<in> set (markers f). \<forall>(k, v) \<in> set (parts m). env k = v)"

text \<open>The messages of the three errors of the filter.\<close>

definition path_conflict :: "string \<Rightarrow> string \<Rightarrow> error" where
  "path_conflict section p = ValueError (section @ '': '' @ p @ '' matched multiple times!'')"

definition group_conflict :: "string \<Rightarrow> string \<Rightarrow> error" where
  "group_conflict section g =
     ValueError (section @ '': group='' @ g @ '' matched multiple times!'')"

definition unsupported :: "host \<Rightarrow> string \<Rightarrow> error" where
  "unsupported h g =
     ValueError (''`'' @ g @ ''` is not supported on your platform'' @ [CHR 0x0A, CHR 0x0A]
       @ ''(debug info):'' @ [CHR 0x0A]
       @ ''- os_name='' @ str_repr (os_dot_name h) @ [CHR 0x0A]
       @ ''- sys_platform='' @ str_repr (sys_dot_platform h) @ [CHR 0x0A]
       @ ''- platform_machine='' @ str_repr (platform_dot_machine h))"

text \<open>A value token wrapped in a pair of double quotes.\<close>

definition quoted :: "string \<Rightarrow> bool" where
  "quoted v \<longleftrightarrow> 2 \<le> length v \<and> hd v = CHR 0x22 \<and> last v = CHR 0x22"

text \<open>The member of the enumeration with a given name.\<close>

fun key_named :: "string \<Rightarrow> Key" where
  "key_named k =
     (if k = ''os_name'' then os_name
      else if k = ''sys_platform'' then sys_platform
      else if k = ''platform_machine'' then platform_machine
      else internal)"

text \<open>A clause \<^verbatim>\<open><key> == "<value>"\<close>: three tokens, a key of the enumeration, the operator
  \<^verbatim>\<open>==\<close> and a value in a pair of double quotes.  \<open>clause_pair\<close> is the pair it denotes: the
  key, and the value without its quotes.\<close>

definition wellformed_clause :: "string \<Rightarrow> bool" where
  "wellformed_clause c \<longleftrightarrow>
     (\<exists>k v. str_split_ws c = [k, ''=='', v] \<and>
        k \<in> set [''os_name'', ''sys_platform'', ''platform_machine'', ''_internal''] \<and> quoted v)"

definition clause_pair :: "string \<Rightarrow> Key \<times> string" where
  "clause_pair c = (key_named (str_split_ws c ! 0), butlast (tl (str_split_ws c ! 2)))"

text \<open>The first element of a list that is equal to an earlier one, or to one of \<open>seen\<close>.\<close>

fun first_repeated :: "'a list \<Rightarrow> 'a list \<Rightarrow> 'a option" where
  "first_repeated seen [] = None"
| "first_repeated seen (x # xs) = (if x \<in> set seen then Some x else first_repeated (x # seen) xs)"

section \<open>Example descriptors\<close>

text \<open>A host, and descriptors as the parser builds them, for the concrete instances below.\<close>

definition example_host :: host where
  "example_host = \<lparr>os_dot_name = ''posix'', sys_dot_platform = ''linux'',
     platform_dot_machine = ''x86_64''\<rparr>"

definition plain_file :: "string \<Rightarrow> string \<Rightarrow> File" where
  "plain_file p u = \<lparr>path = p, url = u, sha256 = ''deadbeef'', archive = Archive_default,
     group = None, markers = []\<rparr>"

definition grouped_file :: "string \<Rightarrow> string \<Rightarrow> Marker \<Rightarrow> File" where
  "grouped_file p g m = \<lparr>path = p, url = ''https://example.com/'' @ p, sha256 = ''deadbeef'',
     archive = Archive_default, group = Some g, markers = [m]\<rparr>"

definition marker_linux :: Marker where
  \<open>marker_linux = \<lparr>orig = ''sys_platform == "linux"'', parts = [(sys_platform, ''linux'')]\<rparr>\<close>

definition marker_win32 :: Marker where
  \<open>marker_win32 = \<lparr>orig = ''sys_platform == "win32"'', parts = [(sys_platform, ''win32'')]\<rparr>\<close>

definition marker_posix :: Marker where
  \<open>marker_posix = \<lparr>orig = ''os_name == "posix"'', parts = [(os_name, ''posix'')]\<rparr>\<close>

text \<open>The SHA-256 digest of the empty byte string, as \<^verbatim>\<open>hexdigest()\<close> writes it.\<close>

definition sha256_empty :: string where
  "sha256_empty = ''e3b0c44298fc1c149afbf4c8996fb92427ae41e4649b934ca495991b7852b855''"

section \<open>Properties of the marker parser\<close>

lemma startswith_iff: "startswith s p \<longleftrightarrow> (\<exists>b. s = p @ b)"
  unfolding startswith_def
  by (metis append_eq_conv_conj append_take_drop_id)

lemma contains_iff: "contains sub s \<longleftrightarrow> (\<exists>a b. s = a @ sub @ b)"
proof (induction s)
  case Nil
  then show ?case by auto
next
  case (Cons c cs)
  show ?case
  proof
    assume "contains sub (c # cs)"
    then consider "startswith (c # cs) sub" | "contains sub cs" by auto
    then show "\<exists>a b. c # cs = a @ sub @ b"
    proof cases
      case 1
      then obtain b where "c # cs = sub @ b" by (auto simp: startswith_iff)
      then have "c # cs = [] @ sub @ b" by simp
      then show ?thesis by blast
    next
      case 2
      with Cons.IH obtain a b where "cs = a @ sub @ b" by auto
      then have "c # cs = (c # a) @ sub @ b" by simp
      then show ?thesis by blast
    qed
  next
    assume "\<exists>a b. c # cs = a @ sub @ b"
    then obtain a b where ab: "c # cs = a @ sub @ b" by blast
    show "contains sub (c # cs)"
    proof (cases a)
      case Nil
      with ab have "startswith (c # cs) sub" by (auto simp: startswith_iff)
      then show ?thesis by simp
    next
      case (Cons a0 as)
      with ab have "cs = as @ sub @ b" by simp
      with Cons.IH have "contains sub cs" by blast
      then show ?thesis by simp
    qed
  qed
qed

text \<open>
  C8.  A marker text that holds the substring \<^verbatim>\<open>" or "\<close> at any position is refused with the
  \<^verbatim>\<open>NotImplementedError\<close> whose message tells to repeat \<^verbatim>\<open>marker =\<close>, whatever its clauses
  are: no clause is looked at.
\<close>

theorem Marker_parse_rejects_or:
  \<open>(\<exists>a b. s = a @ '' or '' @ b) \<Longrightarrow>
     Marker_parse s =
       Inl (NotImplementedError ''Marker only supports `and` -- maybe repeat `marker =`?'')\<close>
  by (simp add: Marker_parse_def contains_iff)

theorem Marker_parse_rejects_or_witness:
  \<open>(\<exists>a b. ''junk or =='' = a @ '' or '' @ b) \<and>
     Marker_parse ''junk or =='' =
       Inl (NotImplementedError ''Marker only supports `and` -- maybe repeat `marker =`?'')\<close>
proof -
  have "''junk or =='' = ''junk'' @ '' or '' @ ''==''" by simp
  then have h: "\<exists>a b. ''junk or =='' = a @ '' or '' @ b" by blast
  from h Marker_parse_rejects_or [OF h] show ?thesis by blast
qed

lemma KEY_DISPLAY_eq: "KEY_DISPLAY = ''(os_name|sys_platform|platform_machine)''"
  by (simp add: KEY_DISPLAY_def Key_members_def)

lemma invalid_marker_part_eq:
  \<open>invalid_marker_part chunk =
     ValueError (''invalid marker part: expected: `(os_name|sys_platform|platform_machine) == "..."` got: `''
       @ chunk @ ''`'')\<close>
  by (simp add: invalid_marker_part_def KEY_DISPLAY_eq)

lemma Key_members_None:
  "map_of Key_members k = None \<longleftrightarrow>
     k \<notin> set [''os_name'', ''sys_platform'', ''platform_machine'', ''_internal'']"
  by (simp add: Key_members_def)

lemma parse_chunk_Inl: "parse_chunk c = Inl e \<Longrightarrow> e = invalid_marker_part c"
  by (auto simp: parse_chunk_def split: list.splits option.splits if_splits)

lemma parse_chunks_fail:
  "c \<in> set chunks \<Longrightarrow> parse_chunk c = Inl e \<Longrightarrow>
   \<exists>c' \<in> set chunks. parse_chunks ret chunks = Inl (invalid_marker_part c')"
proof (induction chunks arbitrary: ret)
  case Nil then show ?case by simp
next
  case (Cons a chunks)
  show ?case
  proof (cases "parse_chunk a")
    case (Inl e')
    then have "parse_chunks ret (a # chunks) = Inl (invalid_marker_part a)"
      using parse_chunk_Inl [OF Inl] by simp
    then show ?thesis by auto
  next
    case (Inr p)
    with Cons.prems have "c \<in> set chunks" by auto
    from Cons.IH [OF this Cons.prems(2), of "ret @ [p]"] Inr show ?thesis by auto
  qed
qed

text \<open>
  C5.  The clause \<^verbatim>\<open>os_name == "\<close>, whose value token is one double quote, is not refused:
  the token starts with a double quote and ends with one, the same, and the value is the empty
  string.
\<close>

theorem Marker_parse_lone_quote:
  \<open>Marker_parse ''os_name == "'' = Inr \<lparr>orig = ''os_name == "'', parts = [(os_name, [])]\<rparr>\<close>
  by code_simp

text \<open>
  C6, as stated, fails: the key \<^verbatim>\<open>_internal\<close> is a member of the enumeration, and a clause on
  it is parsed.
\<close>

theorem Marker_parse_internal_key:
  \<open>Marker_parse ''_internal == "hellohello"'' =
     Inr \<lparr>orig = ''_internal == "hellohello"'', parts = [(internal, ''hellohello'')]\<rparr>\<close>
  by code_simp

lemma key_token_clause:
  \<open>(str_split_ws chunk = [k, ''=='', v] \<and> startswith v ''"'' \<and> endswith v ''"'' \<longrightarrow>
      ((\<exists>r. parse_chunk chunk = Inr r) \<longleftrightarrow>
       k \<in> set [''os_name'', ''sys_platform'', ''platform_machine'', ''_internal''])) \<and>
    (str_split_ws chunk = k # rest \<and>
       k \<notin> set [''os_name'', ''sys_platform'', ''platform_machine'', ''_internal''] \<longrightarrow>
       parse_chunk chunk = Inl (ValueError
         (''invalid marker part: expected: `(os_name|sys_platform|platform_machine) == "..."` got: `''
           @ chunk @ ''`''))) \<and>
    (\<not> contains '' or '' s \<and> chunk \<in> set (str_split '' and '' s) \<and> str_split_ws chunk = k # rest \<and>
       k \<notin> set [''os_name'', ''sys_platform'', ''platform_machine'', ''_internal''] \<longrightarrow>
       (\<exists>c \<in> set (str_split '' and '' s). Marker_parse s = Inl (ValueError
         (''invalid marker part: expected: `(os_name|sys_platform|platform_machine) == "..."` got: `''
           @ c @ ''`''))))\<close>
proof (intro conjI impI)
  assume a: \<open>str_split_ws chunk = [k, ''=='', v] \<and> startswith v ''"'' \<and> endswith v ''"''\<close>
  show "(\<exists>r. parse_chunk chunk = Inr r) \<longleftrightarrow>
       k \<in> set [''os_name'', ''sys_platform'', ''platform_machine'', ''_internal'']"
  proof (cases "map_of Key_members k")
    case None
    with a have "parse_chunk chunk = Inl (invalid_marker_part chunk)"
      by (simp add: parse_chunk_def)
    with None show ?thesis by (simp add: Key_members_None)
  next
    case (Some key)
    with a have "\<exists>r. parse_chunk chunk = Inr r" by (simp add: parse_chunk_def)
    moreover from Some have "map_of Key_members k \<noteq> None" by simp
    ultimately show ?thesis unfolding Key_members_None by blast
  qed
next
  assume a: "str_split_ws chunk = k # rest \<and>
       k \<notin> set [''os_name'', ''sys_platform'', ''platform_machine'', ''_internal'']"
  then have "map_of Key_members k = None" by (simp add: Key_members_None)
  with a have "parse_chunk chunk = Inl (invalid_marker_part chunk)"
    by (simp add: parse_chunk_def split: list.splits)
  then show \<open>parse_chunk chunk = Inl (ValueError
         (''invalid marker part: expected: `(os_name|sys_platform|platform_machine) == "..."` got: `''
           @ chunk @ ''`''))\<close>
    by (simp only: invalid_marker_part_eq)
next
  assume a: "\<not> contains '' or '' s \<and> chunk \<in> set (str_split '' and '' s) \<and>
       str_split_ws chunk = k # rest \<and>
       k \<notin> set [''os_name'', ''sys_platform'', ''platform_machine'', ''_internal'']"
  then have "map_of Key_members k = None" by (simp add: Key_members_None)
  with a have "parse_chunk chunk = Inl (invalid_marker_part chunk)"
    by (simp add: parse_chunk_def split: list.splits)
  with a obtain c where c: "c \<in> set (str_split '' and '' s)"
      "parse_chunks [] (str_split '' and '' s) = Inl (invalid_marker_part c)"
    using parse_chunks_fail [of chunk "str_split '' and '' s" _ "[]"] by blast
  with a have "Marker_parse s = Inl (invalid_marker_part c)" by (simp add: Marker_parse_def)
  with c(1) show \<open>\<exists>c \<in> set (str_split '' and '' s). Marker_parse s = Inl (ValueError
         (''invalid marker part: expected: `(os_name|sys_platform|platform_machine) == "..."` got: `''
           @ c @ ''`''))\<close>
    by (auto simp only: invalid_marker_part_eq)
qed

lemma quoted_startswith: \<open>quoted v \<Longrightarrow> startswith v ''"'' \<and> endswith v ''"''\<close>
proof -
  assume q: "quoted v"
  then have n: "v \<noteq> []" by (auto simp: quoted_def)
  then have "take 1 v = [hd v]" by (cases v) simp_all
  moreover from n have "drop (length v - 1) v = [last v]"
    by (metis append_butlast_last_id append_eq_conv_conj length_butlast)
  ultimately show ?thesis using q by (simp add: quoted_def startswith_def endswith_def)
qed

lemma inner_value: "drop (Suc 0) (take (length v - Suc 0) v) = butlast (tl v)"
  by (simp add: butlast_conv_take drop_Suc tl_take)

lemma key_named_members:
  "k \<in> set [''os_name'', ''sys_platform'', ''platform_machine'', ''_internal''] \<Longrightarrow>
   map_of Key_members k = Some (key_named k)"
  by (auto simp: Key_members_def)

lemma parse_chunk_wellformed: "wellformed_clause c \<Longrightarrow> parse_chunk c = Inr (clause_pair c)"
proof -
  assume "wellformed_clause c"
  then obtain k v where t: "str_split_ws c = [k, ''=='', v]"
    and k: "k \<in> set [''os_name'', ''sys_platform'', ''platform_machine'', ''_internal'']"
    and q: "quoted v"
    unfolding wellformed_clause_def by blast
  from key_named_members [OF k] quoted_startswith [OF q] t
  show ?thesis by (simp add: parse_chunk_def clause_pair_def inner_value)
qed

lemma parse_chunks_all:
  "\<forall>c \<in> set cs. parse_chunk c = Inr (g c) \<Longrightarrow> parse_chunks ret cs = Inr (ret @ map g cs)"
  by (induction cs arbitrary: ret) simp_all

lemma parse_chunks_first_fail:
  "\<forall>c' \<in> set pre. parse_chunk c' = Inr (g c') \<Longrightarrow> parse_chunk c = Inl e \<Longrightarrow>
   parse_chunks ret (pre @ c # post) = Inl e"
  by (induction pre arbitrary: ret) simp_all

lemma Marker_parse_wellformed:
  assumes "\<not> (\<exists>a b. s = a @ '' or '' @ b)"
    and "\<forall>c \<in> set (str_split '' and '' s). wellformed_clause c"
  shows "Marker_parse s = Inr \<lparr>orig = s, parts = map clause_pair (str_split '' and '' s)\<rparr>"
proof -
  from assms(2) have "\<forall>c \<in> set (str_split '' and '' s). parse_chunk c = Inr (clause_pair c)"
    by (simp add: parse_chunk_wellformed)
  from parse_chunks_all [OF this, of "[]"] assms(1) show ?thesis
    by (simp add: Marker_parse_def contains_iff)
qed

lemma Marker_parse_first_bad_key:
  assumes "\<not> (\<exists>a b. s = a @ '' or '' @ b)"
    and "str_split '' and '' s = pre @ c # post"
    and "\<forall>c' \<in> set pre. wellformed_clause c'"
    and "str_split_ws c = k # rest"
    and "k \<notin> set [''os_name'', ''sys_platform'', ''platform_machine'', ''_internal'']"
  shows "Marker_parse s = Inl (invalid_marker_part c)"
proof -
  from assms(5) have "map_of Key_members k = None" by (simp add: Key_members_None)
  with assms(4) have f: "parse_chunk c = Inl (invalid_marker_part c)"
    by (simp add: parse_chunk_def split: list.splits)
  from assms(3) have "\<forall>c' \<in> set pre. parse_chunk c' = Inr (clause_pair c')"
    by (simp add: parse_chunk_wellformed)
  from parse_chunks_first_fail [OF this f, of "[]" post] assms(1,2) show ?thesis
    by (simp add: Marker_parse_def contains_iff)
qed

lemma Marker_parse_accepts_iff:
  assumes no_or: "\<not> (\<exists>a b. s = a @ '' or '' @ b)"
    and shape: "\<forall>c \<in> set (str_split '' and '' s). \<exists>k v. str_split_ws c = [k, ''=='', v] \<and> quoted v"
  shows "(\<exists>m. Marker_parse s = Inr m) \<longleftrightarrow>
     (\<forall>c \<in> set (str_split '' and '' s). hd (str_split_ws c) \<in>
        set [''os_name'', ''sys_platform'', ''platform_machine'', ''_internal''])"
proof
  let ?names = "[''os_name'', ''sys_platform'', ''platform_machine'', ''_internal'']"
  let ?bad = "\<lambda>c. hd (str_split_ws c) \<notin> set ?names"
  assume ok: "\<exists>m. Marker_parse s = Inr m"
  show "\<forall>c \<in> set (str_split '' and '' s). hd (str_split_ws c) \<in> set ?names"
  proof (rule ccontr)
    assume "\<not> (\<forall>c \<in> set (str_split '' and '' s). hd (str_split_ws c) \<in> set ?names)"
    then have "\<exists>c \<in> set (str_split '' and '' s). ?bad c" by blast
    from split_list_first_prop [OF this] obtain pre c post where
      d: "str_split '' and '' s = pre @ c # post" "?bad c" "\<forall>c' \<in> set pre. \<not> ?bad c'"
      by blast
    from d(1) have "c \<in> set (str_split '' and '' s)" by simp
    with shape obtain k v where t: "str_split_ws c = [k, ''=='', v]" by blast
    with d(2) have k: "k \<notin> set ?names" by simp
    have "\<forall>c' \<in> set pre. wellformed_clause c'"
    proof
      fix c' assume c': "c' \<in> set pre"
      with d(1) have "c' \<in> set (str_split '' and '' s)" by simp
      with shape obtain k' v' where "str_split_ws c' = [k', ''=='', v']" "quoted v'" by blast
      moreover with d(3) c' have "k' \<in> set ?names" by auto
      ultimately show "wellformed_clause c'" unfolding wellformed_clause_def by blast
    qed
    from Marker_parse_first_bad_key [OF no_or d(1) this, of k "[''=='', v]"] t k ok
    show False by simp
  qed
next
  let ?names = "[''os_name'', ''sys_platform'', ''platform_machine'', ''_internal'']"
  assume a: "\<forall>c \<in> set (str_split '' and '' s). hd (str_split_ws c) \<in> set ?names"
  have "\<forall>c \<in> set (str_split '' and '' s). wellformed_clause c"
  proof
    fix c assume c: "c \<in> set (str_split '' and '' s)"
    with shape obtain k v where "str_split_ws c = [k, ''=='', v]" "quoted v" by blast
    moreover with a c have "k \<in> set ?names" by auto
    ultimately show "wellformed_clause c" unfolding wellformed_clause_def by blast
  qed
  from Marker_parse_wellformed [OF no_or this] show "\<exists>m. Marker_parse s = Inr m" by blast
qed

text \<open>
  C6, amended.  In a clause of three tokens whose operator is \<^verbatim>\<open>==\<close> and whose value is in a
  pair of double quotes, the key token is accepted if and only if it is one of the four
  names \<^verbatim>\<open>os_name\<close>, \<^verbatim>\<open>sys_platform\<close>, \<^verbatim>\<open>platform_machine\<close>, \<^verbatim>\<open>_internal\<close>, and a clause whose
  first token is any other text is refused with the \<^verbatim>\<open>ValueError\<close> whose message lists the
  first three names and quotes the clause.  For a marker text without \<^verbatim>\<open>" or "\<close>, split at
  \<^verbatim>\<open>" and "\<close>: when each clause has three tokens, the operator \<^verbatim>\<open>==\<close> and a value in a pair of
  double quotes, the text is parsed if and only if the key token of every clause is one of the
  four names, and the marker has the pair of each clause, in order; when the first clause
  that is not such a clause with one of the four names has another text as its first token,
  the text is refused with that error, and the clause quoted is this one.
\<close>

theorem key_token_accepted_iff_member:
  \<open>((str_split_ws chunk = [k, ''=='', v] \<and> quoted v \<longrightarrow>
      ((\<exists>r. parse_chunk chunk = Inr r) \<longleftrightarrow>
       k \<in> set [''os_name'', ''sys_platform'', ''platform_machine'', ''_internal''])) \<and>
    (str_split_ws chunk = k # rest \<and>
       k \<notin> set [''os_name'', ''sys_platform'', ''platform_machine'', ''_internal''] \<longrightarrow>
       parse_chunk chunk = Inl (ValueError
         (''invalid marker part: expected: `(os_name|sys_platform|platform_machine) == "..."` got: `''
           @ chunk @ ''`''))) \<and>
    (\<not> contains '' or '' s \<and> chunk \<in> set (str_split '' and '' s) \<and> str_split_ws chunk = k # rest \<and>
       k \<notin> set [''os_name'', ''sys_platform'', ''platform_machine'', ''_internal''] \<longrightarrow>
       (\<exists>c \<in> set (str_split '' and '' s). Marker_parse s = Inl (ValueError
         (''invalid marker part: expected: `(os_name|sys_platform|platform_machine) == "..."` got: `''
           @ c @ ''`''))))) \<and>
   ((\<not> (\<exists>a b. t = a @ '' or '' @ b) \<and>
       (\<forall>c \<in> set (str_split '' and '' t). \<exists>k v. str_split_ws c = [k, ''=='', v] \<and> quoted v) \<longrightarrow>
       ((\<exists>m. Marker_parse t = Inr m) \<longleftrightarrow>
        (\<forall>c \<in> set (str_split '' and '' t). hd (str_split_ws c) \<in>
           set [''os_name'', ''sys_platform'', ''platform_machine'', ''_internal'']))) \<and>
    (\<not> (\<exists>a b. t = a @ '' or '' @ b) \<and>
       (\<forall>c \<in> set (str_split '' and '' t). wellformed_clause c) \<longrightarrow>
       Marker_parse t = Inr \<lparr>orig = t, parts = map clause_pair (str_split '' and '' t)\<rparr>) \<and>
    (\<not> (\<exists>a b. t = a @ '' or '' @ b) \<and> str_split '' and '' t = pre @ bad # post \<and>
       (\<forall>c \<in> set pre. wellformed_clause c) \<and> str_split_ws bad = kb # restb \<and>
       kb \<notin> set [''os_name'', ''sys_platform'', ''platform_machine'', ''_internal''] \<longrightarrow>
       Marker_parse t = Inl (ValueError
         (''invalid marker part: expected: `(os_name|sys_platform|platform_machine) == "..."` got: `''
           @ bad @ ''`''))))\<close>
proof (rule conjI)
  show \<open>(str_split_ws chunk = [k, ''=='', v] \<and> quoted v \<longrightarrow>
      ((\<exists>r. parse_chunk chunk = Inr r) \<longleftrightarrow>
       k \<in> set [''os_name'', ''sys_platform'', ''platform_machine'', ''_internal''])) \<and>
    (str_split_ws chunk = k # rest \<and>
       k \<notin> set [''os_name'', ''sys_platform'', ''platform_machine'', ''_internal''] \<longrightarrow>
       parse_chunk chunk = Inl (ValueError
         (''invalid marker part: expected: `(os_name|sys_platform|platform_machine) == "..."` got: `''
           @ chunk @ ''`''))) \<and>
    (\<not> contains '' or '' s \<and> chunk \<in> set (str_split '' and '' s) \<and> str_split_ws chunk = k # rest \<and>
       k \<notin> set [''os_name'', ''sys_platform'', ''platform_machine'', ''_internal''] \<longrightarrow>
       (\<exists>c \<in> set (str_split '' and '' s). Marker_parse s = Inl (ValueError
         (''invalid marker part: expected: `(os_name|sys_platform|platform_machine) == "..."` got: `''
           @ c @ ''`''))))\<close>
    using key_token_clause [of chunk k v rest s] quoted_startswith [of v] by blast
next
  have n1: \<open>\<not> (\<exists>a b. t = a @ '' or '' @ b) \<and>
       (\<forall>c \<in> set (str_split '' and '' t). \<exists>k v. str_split_ws c = [k, ''=='', v] \<and> quoted v) \<longrightarrow>
       ((\<exists>m. Marker_parse t = Inr m) \<longleftrightarrow>
        (\<forall>c \<in> set (str_split '' and '' t). hd (str_split_ws c) \<in>
           set [''os_name'', ''sys_platform'', ''platform_machine'', ''_internal'']))\<close>
    using Marker_parse_accepts_iff [of t] by blast
  have n2: \<open>\<not> (\<exists>a b. t = a @ '' or '' @ b) \<and>
       (\<forall>c \<in> set (str_split '' and '' t). wellformed_clause c) \<longrightarrow>
       Marker_parse t = Inr \<lparr>orig = t, parts = map clause_pair (str_split '' and '' t)\<rparr>\<close>
    using Marker_parse_wellformed [of t] by blast
  have n3: \<open>\<not> (\<exists>a b. t = a @ '' or '' @ b) \<and> str_split '' and '' t = pre @ bad # post \<and>
       (\<forall>c \<in> set pre. wellformed_clause c) \<and> str_split_ws bad = kb # restb \<and>
       kb \<notin> set [''os_name'', ''sys_platform'', ''platform_machine'', ''_internal''] \<longrightarrow>
       Marker_parse t = Inl (ValueError
         (''invalid marker part: expected: `(os_name|sys_platform|platform_machine) == "..."` got: `''
           @ bad @ ''`''))\<close>
    using Marker_parse_first_bad_key [of t pre bad post kb restb]
    by (simp only: invalid_marker_part_eq) blast
  from n1 n2 n3 show \<open>(\<not> (\<exists>a b. t = a @ '' or '' @ b) \<and>
       (\<forall>c \<in> set (str_split '' and '' t). \<exists>k v. str_split_ws c = [k, ''=='', v] \<and> quoted v) \<longrightarrow>
       ((\<exists>m. Marker_parse t = Inr m) \<longleftrightarrow>
        (\<forall>c \<in> set (str_split '' and '' t). hd (str_split_ws c) \<in>
           set [''os_name'', ''sys_platform'', ''platform_machine'', ''_internal'']))) \<and>
    (\<not> (\<exists>a b. t = a @ '' or '' @ b) \<and>
       (\<forall>c \<in> set (str_split '' and '' t). wellformed_clause c) \<longrightarrow>
       Marker_parse t = Inr \<lparr>orig = t, parts = map clause_pair (str_split '' and '' t)\<rparr>) \<and>
    (\<not> (\<exists>a b. t = a @ '' or '' @ b) \<and> str_split '' and '' t = pre @ bad # post \<and>
       (\<forall>c \<in> set pre. wellformed_clause c) \<and> str_split_ws bad = kb # restb \<and>
       kb \<notin> set [''os_name'', ''sys_platform'', ''platform_machine'', ''_internal''] \<longrightarrow>
       Marker_parse t = Inl (ValueError
         (''invalid marker part: expected: `(os_name|sys_platform|platform_machine) == "..."` got: `''
           @ bad @ ''`'')))\<close>
    by (intro conjI)
qed

lemmas split_defs = str_split_ws_def str_split_def isspace_def startswith_def endswith_def

lemma no_or_example_1: \<open>\<not> (\<exists>a b. ''os_name == "nt" and extra == "wat"'' = a @ '' or '' @ b)\<close>
  unfolding contains_iff [symmetric] by (simp add: startswith_def)

lemma no_or_example_2: \<open>\<not> (\<exists>a b. ''os_name == "nt" and _internal == "x"'' = a @ '' or '' @ b)\<close>
  unfolding contains_iff [symmetric] by (simp add: startswith_def)

theorem key_token_accepted_iff_member_witness:
  \<open>(\<exists>r. parse_chunk ''os_name == "nt"'' = Inr r) \<and>
    parse_chunk ''extra == "wat"'' = Inl (ValueError
      ''invalid marker part: expected: `(os_name|sys_platform|platform_machine) == "..."` got: `extra == "wat"`'') \<and>
    Marker_parse ''extra == "wat"'' = Inl (ValueError
      ''invalid marker part: expected: `(os_name|sys_platform|platform_machine) == "..."` got: `extra == "wat"`'') \<and>
    Marker_parse ''os_name == "nt" and extra == "wat"'' = Inl (ValueError
      ''invalid marker part: expected: `(os_name|sys_platform|platform_machine) == "..."` got: `extra == "wat"`'') \<and>
    Marker_parse ''os_name == "nt" and _internal == "x"'' =
      Inr \<lparr>orig = ''os_name == "nt" and _internal == "x"'',
           parts = [(os_name, ''nt''), (internal, ''x'')]\<rparr>\<close>
proof -
  have h1: \<open>str_split_ws ''os_name == "nt"'' = [''os_name'', ''=='', ''"nt"''] \<and>
      quoted ''"nt"''\<close>
    by (simp add: split_defs quoted_def)
  have m1: "''os_name'' \<in> set [''os_name'', ''sys_platform'', ''platform_machine'', ''_internal'']"
    by simp
  from key_token_accepted_iff_member [of \<open>''os_name == "nt"''\<close> "''os_name''" \<open>''"nt"''\<close>] h1 m1
  have c1: \<open>\<exists>r. parse_chunk ''os_name == "nt"'' = Inr r\<close> by blast
  have h2: \<open>str_split_ws ''extra == "wat"'' = ''extra'' # [''=='', ''"wat"''] \<and>
      ''extra'' \<notin> set [''os_name'', ''sys_platform'', ''platform_machine'', ''_internal'']\<close>
    by (simp add: split_defs)
  have h3: \<open>\<not> contains '' or '' ''extra == "wat"'' \<and>
      ''extra == "wat"'' \<in> set (str_split '' and '' ''extra == "wat"'')\<close>
    by (simp add: split_defs)
  have s3: \<open>set (str_split '' and '' ''extra == "wat"'') = {''extra == "wat"''}\<close>
    by (simp add: split_defs)
  note t = key_token_accepted_iff_member [of \<open>''extra == "wat"''\<close> "''extra''" _
      \<open>[''=='', ''"wat"'']\<close> \<open>''extra == "wat"''\<close>]
  from t h2 have c2: \<open>parse_chunk ''extra == "wat"'' = Inl (ValueError
      (''invalid marker part: expected: `(os_name|sys_platform|platform_machine) == "..."` got: `''
        @ ''extra == "wat"'' @ ''`''))\<close>
    by blast
  from t h2 h3 have \<open>\<exists>c \<in> set (str_split '' and '' ''extra == "wat"'').
      Marker_parse ''extra == "wat"'' = Inl (ValueError
        (''invalid marker part: expected: `(os_name|sys_platform|platform_machine) == "..."` got: `''
          @ c @ ''`''))\<close>
    by blast
  then have c3: \<open>Marker_parse ''extra == "wat"'' = Inl (ValueError
      (''invalid marker part: expected: `(os_name|sys_platform|platform_machine) == "..."` got: `''
        @ ''extra == "wat"'' @ ''`''))\<close>
    unfolding s3 by blast
  have h4: \<open>str_split '' and '' ''os_name == "nt" and extra == "wat"'' =
        [''os_name == "nt"''] @ ''extra == "wat"'' # [] \<and>
      (\<forall>c \<in> set [''os_name == "nt"'']. wellformed_clause c) \<and>
      str_split_ws ''extra == "wat"'' = ''extra'' # [''=='', ''"wat"''] \<and>
      ''extra'' \<notin> set [''os_name'', ''sys_platform'', ''platform_machine'', ''_internal'']\<close>
    by (simp add: split_defs wellformed_clause_def quoted_def)
  from key_token_accepted_iff_member [where t = \<open>''os_name == "nt" and extra == "wat"''\<close>
      and pre = \<open>[''os_name == "nt"'']\<close> and bad = \<open>''extra == "wat"''\<close> and post = "[]"
      and kb = "''extra''" and restb = \<open>[''=='', ''"wat"'']\<close>] no_or_example_1 h4
  have c4: \<open>Marker_parse ''os_name == "nt" and extra == "wat"'' = Inl (ValueError
      (''invalid marker part: expected: `(os_name|sys_platform|platform_machine) == "..."` got: `''
        @ ''extra == "wat"'' @ ''`''))\<close>
    by blast
  have s5: \<open>str_split '' and '' ''os_name == "nt" and _internal == "x"'' =
      [''os_name == "nt"'', ''_internal == "x"'']\<close>
    by (simp add: split_defs)
  have h5: \<open>\<forall>c \<in> set (str_split '' and '' ''os_name == "nt" and _internal == "x"'').
      wellformed_clause c\<close>
    unfolding s5 by (simp add: split_defs wellformed_clause_def quoted_def)
  from key_token_accepted_iff_member [where t = \<open>''os_name == "nt" and _internal == "x"''\<close>]
    no_or_example_2 h5
  have \<open>Marker_parse ''os_name == "nt" and _internal == "x"'' =
      Inr \<lparr>orig = ''os_name == "nt" and _internal == "x"'',
           parts = map clause_pair (str_split '' and '' ''os_name == "nt" and _internal == "x"'')\<rparr>\<close>
    by blast
  then have c5: \<open>Marker_parse ''os_name == "nt" and _internal == "x"'' =
      Inr \<lparr>orig = ''os_name == "nt" and _internal == "x"'',
           parts = [(os_name, ''nt''), (internal, ''x'')]\<rparr>\<close>
    unfolding s5 by (simp add: clause_pair_def split_defs)
  from c1 c2 c3 c4 c5 show ?thesis by simp
qed

section \<open>Properties of the platform filter\<close>

lemmas example_defs = example_host_def plain_file_def grouped_file_def marker_linux_def
  marker_win32_def marker_posix_def Archive_default_def

lemma first_repeated_None: "first_repeated seen xs = None \<longleftrightarrow> distinct xs \<and> set xs \<inter> set seen = {}"
  by (induction xs arbitrary: seen) auto

lemma first_repeated_Some: "first_repeated seen xs = Some x \<Longrightarrow> x \<in> set xs \<and> (x \<in> set seen \<or> 1 < count_list xs x)"
proof (induction xs arbitrary: seen)
  case Nil then show ?case by simp
next
  case (Cons a xs)
  show ?case
  proof (cases "a \<in> set seen")
    case True with Cons.prems show ?thesis by auto
  next
    case False
    with Cons.prems have "first_repeated (a # seen) xs = Some x" by simp
    from Cons.IH[OF this] have x: "x \<in> set xs" and d: "x \<in> set (a # seen) \<or> 1 < count_list xs x" by auto
    from x have "0 < count_list xs x" using count_list_0_iff [of xs x] by auto
    with d show ?thesis using x by auto
  qed
qed

lemma applies_code: "applies env f \<longleftrightarrow> markers f = [] \<or> list_ex (\<lambda>m. evaluate m env) (markers f)"
  by (auto simp: applies_def evaluate_def list_ex_iff list_all_iff)

lemma selected_eq: "[f \<leftarrow> src. markers f = [] \<or> list_ex (\<lambda>m. evaluate m env) (markers f)] = filter (applies env) src"
  by (rule filter_cong [OF refl]) (simp add: applies_code)

lemma scan_ok:
  "first_repeated seen (map path fs) = None \<Longrightarrow> first_repeated sgl (groups_of fs) = None \<Longrightarrow>
   scan section (set seen) (set sgl) fs = Inr (set sgl \<union> set (groups_of fs))"
proof (induction fs arbitrary: seen sgl)
  case Nil then show ?case by simp
next
  case (Cons f fs)
  from Cons.prems(1) have p: "path f \<notin> set seen" and p': "first_repeated (path f # seen) (map path fs) = None"
    by (auto split: if_splits)
  show ?case
  proof (cases "group f")
    case None
    with Cons.prems(2) have "first_repeated sgl (groups_of fs) = None" by (simp add: map_filter_simps)
    from Cons.IH[OF p' this] p None show ?thesis by (simp add: map_filter_simps)
  next
    case (Some g)
    with Cons.prems(2) have g: "g \<notin> set sgl" and g': "first_repeated (g # sgl) (groups_of fs) = None"
      by (auto simp: map_filter_simps split: if_splits)
    from Cons.IH[OF p' g'] p g Some show ?thesis by (simp add: map_filter_simps)
  qed
qed

lemma scan_path_conflict:
  "first_repeated seen (map path fs) = Some p \<Longrightarrow> first_repeated sgl (groups_of fs) = None \<Longrightarrow>
   scan section (set seen) (set sgl) fs = Inl (path_conflict section p)"
proof (induction fs arbitrary: seen sgl)
  case Nil then show ?case by simp
next
  case (Cons f fs)
  show ?case
  proof (cases "path f \<in> set seen")
    case True
    with Cons.prems(1) show ?thesis by (simp add: path_conflict_def)
  next
    case False
    with Cons.prems(1) have p': "first_repeated (path f # seen) (map path fs) = Some p" by simp
    show ?thesis
    proof (cases "group f")
      case None
      with Cons.prems(2) have "first_repeated sgl (groups_of fs) = None" by (simp add: map_filter_simps)
      from Cons.IH[OF p' this] False None show ?thesis by (simp add: map_filter_simps)
    next
      case (Some g)
      with Cons.prems(2) have g: "g \<notin> set sgl" and g': "first_repeated (g # sgl) (groups_of fs) = None"
        by (auto simp: map_filter_simps split: if_splits)
      from Cons.IH[OF p' g'] False g Some show ?thesis by (simp add: map_filter_simps)
    qed
  qed
qed

lemma scan_group_conflict:
  "first_repeated seen (map path fs) = None \<Longrightarrow> first_repeated sgl (groups_of fs) = Some g \<Longrightarrow>
   scan section (set seen) (set sgl) fs = Inl (group_conflict section g)"
proof (induction fs arbitrary: seen sgl)
  case Nil then show ?case by simp
next
  case (Cons f fs)
  from Cons.prems(1) have p: "path f \<notin> set seen" and p': "first_repeated (path f # seen) (map path fs) = None"
    by (auto split: if_splits)
  show ?case
  proof (cases "group f")
    case None
    with Cons.prems(2) have "first_repeated sgl (groups_of fs) = Some g" by (simp add: map_filter_simps)
    from Cons.IH[OF p' this] p None show ?thesis by (simp add: map_filter_simps)
  next
    case (Some g0)
    show ?thesis
    proof (cases "g0 \<in> set sgl")
      case True
      with Cons.prems(2) Some have "g = g0" by (simp add: map_filter_simps)
      with True p Some show ?thesis by (simp add: group_conflict_def)
    next
      case False
      with Cons.prems(2) Some have g': "first_repeated (g0 # sgl) (groups_of fs) = Some g"
        by (simp add: map_filter_simps)
      from Cons.IH[OF p' g'] p False Some show ?thesis by (simp add: map_filter_simps)
    qed
  qed
qed

lemma scan_conflict:
  "scan section (set seen) (set sgl) fs = Inl e \<Longrightarrow>
   (\<exists>p. e = path_conflict section p \<and> p \<in> set (map path fs) \<and>
      (p \<in> set seen \<or> 1 < count_list (map path fs) p)) \<or>
   (\<exists>g. e = group_conflict section g \<and> g \<in> set (groups_of fs) \<and>
      (g \<in> set sgl \<or> 1 < count_list (groups_of fs) g))"
proof (induction fs arbitrary: seen sgl)
  case Nil then show ?case by simp
next
  case (Cons f fs)
  let ?P = "\<lambda>seen fs p. e = path_conflict section p \<and> p \<in> set (map path fs) \<and>
      (p \<in> set seen \<or> 1 < count_list (map path fs) p)"
  let ?G = "\<lambda>sgl fs g. e = group_conflict section g \<and> g \<in> set (groups_of fs) \<and>
      (g \<in> set sgl \<or> 1 < count_list (groups_of fs) g)"
  have pos: "x \<in> set xs \<Longrightarrow> 0 < count_list xs x" for x :: string and xs
    using count_list_0_iff [of xs x] by auto
  have stepP: "?P (path f # seen) fs p \<Longrightarrow> ?P seen (f # fs) p" for p
    using pos [of p "map path fs"] by auto
  have stepG_None: "group f = None \<Longrightarrow> ?G sgl fs g \<Longrightarrow> ?G sgl (f # fs) g" for g
    by (simp add: map_filter_simps)
  have stepG_Some: "group f = Some g0 \<Longrightarrow> ?G (g0 # sgl) fs g \<Longrightarrow> ?G sgl (f # fs) g" for g g0
    using pos [of g "groups_of fs"] by (auto simp: map_filter_simps)
  show ?case
  proof (cases "path f \<in> set seen")
    case True
    with Cons.prems have "e = path_conflict section (path f)" by (simp add: path_conflict_def)
    with True have "?P seen (f # fs) (path f)" by simp
    then show ?thesis by blast
  next
    case False
    show ?thesis
    proof (cases "group f")
      case None
      with False Cons.prems have "scan section (set (path f # seen)) (set sgl) fs = Inl e" by simp
      from Cons.IH [OF this] consider p where "?P (path f # seen) fs p" | g where "?G sgl fs g"
        by blast
      then show ?thesis
      proof cases
        case 1
        from stepP [OF this] show ?thesis by blast
      next
        case 2
        from stepG_None [OF None this] show ?thesis by blast
      qed
    next
      case (Some g0)
      show ?thesis
      proof (cases "g0 \<in> set sgl")
        case True
        with False Some Cons.prems have "e = group_conflict section g0"
          by (simp add: group_conflict_def)
        with True Some have "?G sgl (f # fs) g0" by (simp add: map_filter_simps)
        then show ?thesis by blast
      next
        case g0: False
        with False Some Cons.prems
        have "scan section (set (path f # seen)) (set (g0 # sgl)) fs = Inl e" by simp
        from Cons.IH [OF this]
        consider p where "?P (path f # seen) fs p" | g where "?G (g0 # sgl) fs g"
          by blast
        then show ?thesis
        proof cases
          case 1
          from stepP [OF this] show ?thesis by blast
        next
          case 2
          from stepG_Some [OF Some this] show ?thesis by blast
        qed
      qed
    qed
  qed
qed

lemma scan_Inr_first_repeated:
  "scan section (set seen) (set sgl) fs = Inr sg' \<Longrightarrow>
   first_repeated seen (map path fs) = None \<and> first_repeated sgl (groups_of fs) = None"
proof (induction fs arbitrary: seen sgl)
  case Nil then show ?case by simp
next
  case (Cons f fs)
  from Cons.prems have p: "path f \<notin> set seen" by (auto split: if_splits)
  show ?case
  proof (cases "group f")
    case None
    with p Cons.prems have "scan section (set (path f # seen)) (set sgl) fs = Inr sg'" by simp
    from Cons.IH [OF this] p None show ?thesis by (simp add: map_filter_simps)
  next
    case (Some g)
    with p Cons.prems have g: "g \<notin> set sgl" by (auto split: if_splits)
    with p Some Cons.prems have "scan section (set (path f # seen)) (set (g # sgl)) fs = Inr sg'"
      by simp
    from Cons.IH [OF this] p g Some show ?thesis by (simp add: map_filter_simps)
  qed
qed

lemma scan_empty_Inr:
  "scan section {} {} fs = Inr sg \<longleftrightarrow>
   distinct (map path fs) \<and> distinct (groups_of fs) \<and> sg = set (groups_of fs)"
proof
  assume a: "scan section {} {} fs = Inr sg"
  then have "scan section (set []) (set []) fs = Inr sg" by simp
  from scan_Inr_first_repeated [OF this]
  have n: "first_repeated [] (map path fs) = None" "first_repeated [] (groups_of fs) = None"
    by auto
  from scan_ok [OF n, of "section"] a have "sg = set (groups_of fs)" by simp
  with n show "distinct (map path fs) \<and> distinct (groups_of fs) \<and> sg = set (groups_of fs)"
    by (simp add: first_repeated_None)
next
  assume a: "distinct (map path fs) \<and> distinct (groups_of fs) \<and> sg = set (groups_of fs)"
  then have n: "first_repeated [] (map path fs) = None" "first_repeated [] (groups_of fs) = None"
    by (simp_all add: first_repeated_None)
  from scan_ok [OF n, of "section"] a show "scan section {} {} fs = Inr sg" by simp
qed

lemma check_groups_find:
  "check_groups h sg gs =
     (case find (\<lambda>g. g \<notin> sg) gs of None \<Rightarrow> Inr () | Some g \<Rightarrow> Inl (unsupported h g))"
  by (induction gs) (simp_all add: unsupported_def)

lemma find_sorted_least:
  "sorted gs \<Longrightarrow> find P gs = Some g \<Longrightarrow> P g \<and> g \<in> set gs \<and> (\<forall>g' \<in> set gs. P g' \<longrightarrow> g \<le> g')"
  by (induction gs) (auto split: if_splits)

lemma filter'_unfold:
  "filter' h src section =
     (case scan section {} {} (filter (applies (default_env h)) src) of
        Inl e \<Rightarrow> Inl e
      | Inr sg \<Rightarrow>
          (case check_groups h sg (sort (remdups (groups_of src))) of
             Inl e \<Rightarrow> Inl e
           | Inr _ \<Rightarrow> Inr (filter (applies (default_env h)) src)))"
  by (simp add: filter'_def selected_eq Let_def)

lemma check_groups_Inr: "check_groups h sg gs = Inr u \<longleftrightarrow> set gs \<subseteq> sg"
  by (induction gs) auto

text \<open>
  C1.  \<^verbatim>\<open>_filter\<close> returns \<open>ret\<close> if and only if \<open>ret\<close> is exactly the descriptors of its input
  that have no marker or have a marker that holds in the environment of the host, in the order
  of the input, no path and no group occurs twice in \<open>ret\<close>, and every group of the input is
  on a descriptor of \<open>ret\<close>.
\<close>

theorem filter'_selects:
  "filter' h src sec = Inr ret \<longleftrightarrow>
     ret = filter (applies (default_env h)) src \<and> distinct (map path ret) \<and>
     distinct (groups_of ret) \<and> set (groups_of src) \<subseteq> set (groups_of ret)"
proof -
  let ?sel = "filter (applies (default_env h)) src"
  show ?thesis
  proof (cases "scan sec {} {} ?sel")
    case (Inl e)
    then have "\<not> (distinct (map path ?sel) \<and> distinct (groups_of ?sel))"
      using scan_empty_Inr [of sec ?sel "set (groups_of ?sel)"] by auto
    with Inl show ?thesis by (auto simp: filter'_unfold)
  next
    case (Inr sg)
    then have d: "distinct (map path ?sel)" "distinct (groups_of ?sel)" "sg = set (groups_of ?sel)"
      by (simp_all add: scan_empty_Inr)
    show ?thesis
    proof (cases "check_groups h sg (sort (remdups (groups_of src)))")
      case (Inl e)
      then have "\<not> set (sort (remdups (groups_of src))) \<subseteq> sg"
        using check_groups_Inr [of h sg "sort (remdups (groups_of src))" "()"] by auto
      with Inl Inr d show ?thesis by (auto simp: filter'_unfold)
    next
      case (Inr u)
      then have "set (sort (remdups (groups_of src))) \<subseteq> sg" by (simp add: check_groups_Inr)
      with Inr \<open>scan sec {} {} ?sel = Inr sg\<close> d show ?thesis by (auto simp: filter'_unfold)
    qed
  qed
qed

theorem filter'_selects_witness:
  "filter' example_host
       [plain_file ''f1'' ''u1'', grouped_file ''f3.exe'' ''f3-binary'' marker_win32,
        grouped_file ''f3'' ''f3-binary'' marker_linux] ''example'' =
     Inr [plain_file ''f1'' ''u1'', grouped_file ''f3'' ''f3-binary'' marker_linux] \<and>
   filter' example_host [plain_file ''f1'' ''https://example.com/f1''] ''example'' =
     Inr [plain_file ''f1'' ''https://example.com/f1'']"
proof -
  let ?s1 = "[plain_file ''f1'' ''u1'', grouped_file ''f3.exe'' ''f3-binary'' marker_win32,
        grouped_file ''f3'' ''f3-binary'' marker_linux]"
  let ?r1 = "[plain_file ''f1'' ''u1'', grouped_file ''f3'' ''f3-binary'' marker_linux]"
  let ?s2 = "[plain_file ''f1'' ''https://example.com/f1'']"
  have h1: "?r1 = filter (applies (default_env example_host)) ?s1 \<and> distinct (map path ?r1) \<and>
     distinct (groups_of ?r1) \<and> set (groups_of ?s1) \<subseteq> set (groups_of ?r1)"
    by (simp add: applies_def example_defs)
  have h2: "?s2 = filter (applies (default_env example_host)) ?s2 \<and> distinct (map path ?s2) \<and>
     distinct (groups_of ?s2) \<and> set (groups_of ?s2) \<subseteq> set (groups_of ?s2)"
    by (simp add: applies_def example_defs)
  from h1 have c1: "filter' example_host ?s1 ''example'' = Inr ?r1"
    by (rule filter'_selects [THEN iffD2])
  from h2 have c2: "filter' example_host ?s2 ''example'' = Inr ?s2"
    by (rule filter'_selects [THEN iffD2])
  from c1 c2 show ?thesis by (rule conjI)
qed

text \<open>
  C9.  Filtering is idempotent: when \<^verbatim>\<open>_filter\<close> returns \<open>ret\<close> on an input, it returns \<open>ret\<close>
  again on \<open>ret\<close>, for the same host.
\<close>

theorem filter'_idempotent:
  "filter' h src sec = Inr ret \<Longrightarrow> filter' h ret sec = Inr ret"
proof -
  assume a: "filter' h src sec = Inr ret"
  let ?P = "applies (default_env h)"
  from a have ret: "ret = filter ?P src" by (auto simp: filter'_unfold split: sum.splits)
  from a obtain sg where sg: "scan sec {} {} ret = Inr sg"
    by (auto simp: filter'_unfold ret split: sum.splits)
  then have sg_eq: "sg = set (groups_of ret)" by (simp add: scan_empty_Inr)
  have f: "filter ?P ret = ret" by (simp add: ret)
  have "find (\<lambda>g. g \<notin> sg) (sort (remdups (groups_of ret))) = None"
    by (simp add: find_None_iff sg_eq)
  then have "check_groups h sg (sort (remdups (groups_of ret))) = Inr ()"
    by (simp add: check_groups_find)
  with sg f show ?thesis by (simp add: filter'_unfold)
qed

theorem filter'_idempotent_witness:
  "filter' example_host
       [plain_file ''f1'' ''u1'', grouped_file ''f3.exe'' ''f3-binary'' marker_win32,
        grouped_file ''f3'' ''f3-binary'' marker_linux] ''example'' =
     Inr [plain_file ''f1'' ''u1'', grouped_file ''f3'' ''f3-binary'' marker_linux] \<and>
   filter' example_host
       [plain_file ''f1'' ''u1'', grouped_file ''f3'' ''f3-binary'' marker_linux] ''example'' =
     Inr [plain_file ''f1'' ''u1'', grouped_file ''f3'' ''f3-binary'' marker_linux]"
proof -
  have e: "filter' example_host
       [plain_file ''f1'' ''u1'', grouped_file ''f3.exe'' ''f3-binary'' marker_win32,
        grouped_file ''f3'' ''f3-binary'' marker_linux] ''example'' =
     Inr [plain_file ''f1'' ''u1'', grouped_file ''f3'' ''f3-binary'' marker_linux]"
    by (simp add: filter'_def example_defs evaluate_def map_filter_simps)
  from e filter'_idempotent [OF e] show ?thesis by (rule conjI)
qed

text \<open>
  C3, as stated, fails: below the path \<^verbatim>\<open>a\<close> occurs twice among the selected descriptors, and
  the error is the one of the group \<^verbatim>\<open>g\<close>, which the scan meets first.
\<close>

theorem filter'_conflict_counterexample:
  "1 < count_list (map path (filter (applies (default_env example_host))
         [grouped_file ''a'' ''g'' marker_linux, grouped_file ''b'' ''g'' marker_posix,
          plain_file ''a'' ''u'']))
       ''a'' \<and>
   filter' example_host
       [grouped_file ''a'' ''g'' marker_linux, grouped_file ''b'' ''g'' marker_posix,
        plain_file ''a'' ''u''] ''example'' =
     Inl (ValueError ''example: group=g matched multiple times!'') \<and>
   filter' example_host
       [grouped_file ''a'' ''g'' marker_linux, grouped_file ''b'' ''g'' marker_posix,
        plain_file ''a'' ''u''] ''example'' \<noteq>
     Inl (ValueError ''example: a matched multiple times!'')"
  by (simp add: filter'_def applies_def example_defs evaluate_def map_filter_simps)

lemma conflict_derived:
  assumes sel: "sel = filter (applies (default_env h)) src"
  shows "(first_repeated [] (map path sel) = Some p \<and> distinct (groups_of sel) \<longrightarrow>
            filter' h src sec =
              Inl (ValueError (sec @ '': '' @ p @ '' matched multiple times!''))) \<and>
         (distinct (map path sel) \<and> first_repeated [] (groups_of sel) = Some g \<longrightarrow>
            filter' h src sec =
              Inl (ValueError (sec @ '': group='' @ g @ '' matched multiple times!''))) \<and>
         (\<not> distinct (map path sel) \<or> \<not> distinct (groups_of sel) \<longrightarrow>
            (\<exists>p'. 1 < count_list (map path sel) p' \<and> filter' h src sec =
               Inl (ValueError (sec @ '': '' @ p' @ '' matched multiple times!''))) \<or>
            (\<exists>g'. 1 < count_list (groups_of sel) g' \<and> filter' h src sec =
               Inl (ValueError (sec @ '': group='' @ g' @ '' matched multiple times!'')))) \<and>
         (path f1 = path f2 \<and> group f1 = None \<and> group f2 = None \<and> markers f1 = [] \<and>
            markers f2 = [] \<longrightarrow>
            filter' h [f1, f2] sec =
              Inl (ValueError (sec @ '': '' @ path f1 @ '' matched multiple times!'')))"
proof (intro conjI impI)
  assume a: "first_repeated [] (map path sel) = Some p \<and> distinct (groups_of sel)"
  then have "first_repeated [] (groups_of sel) = None" by (simp add: first_repeated_None)
  with a have "scan sec (set []) (set []) sel = Inl (path_conflict sec p)"
    by (intro scan_path_conflict) simp_all
  then show "filter' h src sec =
      Inl (ValueError (sec @ '': '' @ p @ '' matched multiple times!''))"
    by (simp add: filter'_unfold sel path_conflict_def)
next
  assume a: "distinct (map path sel) \<and> first_repeated [] (groups_of sel) = Some g"
  then have "first_repeated [] (map path sel) = None" by (simp add: first_repeated_None)
  with a have "scan sec (set []) (set []) sel = Inl (group_conflict sec g)"
    by (intro scan_group_conflict) simp_all
  then show "filter' h src sec =
      Inl (ValueError (sec @ '': group='' @ g @ '' matched multiple times!''))"
    by (simp add: filter'_unfold sel group_conflict_def)
next
  assume a: "\<not> distinct (map path sel) \<or> \<not> distinct (groups_of sel)"
  have "\<exists>e. scan sec (set []) (set []) sel = Inl e"
  proof (cases "scan sec (set []) (set []) sel")
    case (Inl e) then show ?thesis by blast
  next
    case (Inr sg)
    from scan_Inr_first_repeated [OF this] a show ?thesis by (simp add: first_repeated_None)
  qed
  then obtain e where e: "scan sec (set []) (set []) sel = Inl e" by blast
  then have f: "filter' h src sec = Inl e" by (simp add: filter'_unfold sel)
  from scan_conflict [OF e] f
  show "(\<exists>p'. 1 < count_list (map path sel) p' \<and> filter' h src sec =
               Inl (ValueError (sec @ '': '' @ p' @ '' matched multiple times!''))) \<or>
        (\<exists>g'. 1 < count_list (groups_of sel) g' \<and> filter' h src sec =
               Inl (ValueError (sec @ '': group='' @ g' @ '' matched multiple times!'')))"
    by (auto simp: path_conflict_def group_conflict_def)
next
  assume "path f1 = path f2 \<and> group f1 = None \<and> group f2 = None \<and> markers f1 = [] \<and>
            markers f2 = []"
  then show "filter' h [f1, f2] sec =
      Inl (ValueError (sec @ '': '' @ path f1 @ '' matched multiple times!''))"
    by (simp add: filter'_def)
qed

lemma groups_of_append: "groups_of (xs @ ys) = groups_of xs @ groups_of ys"
  by (simp add: map_filter_def)

lemma scan_append:
  "distinct (map path pre) \<Longrightarrow> set (map path pre) \<inter> seen = {} \<Longrightarrow>
   distinct (groups_of pre) \<Longrightarrow> set (groups_of pre) \<inter> sg = {} \<Longrightarrow>
   scan sec seen sg (pre @ rest) =
     scan sec (seen \<union> set (map path pre)) (sg \<union> set (groups_of pre)) rest"
proof (induction pre arbitrary: seen sg)
  case Nil then show ?case by simp
next
  case (Cons a pre)
  from Cons.prems have p: "path a \<notin> seen" "distinct (map path pre)"
    "set (map path pre) \<inter> insert (path a) seen = {}"
    by auto
  show ?case
  proof (cases "group a")
    case None
    with Cons.prems have g: "distinct (groups_of pre)" "set (groups_of pre) \<inter> sg = {}"
      by simp_all
    from Cons.IH [OF p(2,3) g] p(1) None show ?thesis by simp
  next
    case (Some g0)
    with Cons.prems have g: "g0 \<notin> sg" "distinct (groups_of pre)"
      "set (groups_of pre) \<inter> insert g0 sg = {}"
      by auto
    from Cons.IH [OF p(2,3) g(2,3)] p(1) g(1) Some show ?thesis by simp
  qed
qed

lemma first_conflict_exists:
  "\<not> distinct (map path xs) \<or> \<not> distinct (groups_of xs) \<Longrightarrow>
   \<exists>pre f post. xs = pre @ f # post \<and> distinct (map path pre) \<and> distinct (groups_of pre) \<and>
     (path f \<in> set (map path pre) \<or> (\<exists>g. group f = Some g \<and> g \<in> set (groups_of pre)))"
proof (induction xs rule: rev_induct)
  case Nil then show ?case by simp
next
  case (snoc f ys)
  show ?case
  proof (cases "distinct (map path ys) \<and> distinct (groups_of ys)")
    case True
    with snoc.prems have "path f \<in> set (map path ys) \<or>
        (\<exists>g. group f = Some g \<and> g \<in> set (groups_of ys))"
      by (cases "group f") (auto simp: groups_of_append)
    with True have "ys @ [f] = ys @ f # [] \<and> distinct (map path ys) \<and> distinct (groups_of ys) \<and>
        (path f \<in> set (map path ys) \<or> (\<exists>g. group f = Some g \<and> g \<in> set (groups_of ys)))"
      by simp
    then show ?thesis by blast
  next
    case False
    then have "\<not> distinct (map path ys) \<or> \<not> distinct (groups_of ys)" by blast
    from snoc.IH [OF this] obtain pre f' post where
      d: "ys = pre @ f' # post" "distinct (map path pre)" "distinct (groups_of pre)"
        "path f' \<in> set (map path pre) \<or> (\<exists>g. group f' = Some g \<and> g \<in> set (groups_of pre))"
      by blast
    from d(1) have "ys @ [f] = pre @ f' # (post @ [f])" by simp
    with d(2,3,4) show ?thesis by blast
  qed
qed

lemma conflict_first:
  assumes sel: "sel = filter (applies (default_env h)) src"
  shows "(sel = pre @ f # post \<and> distinct (map path pre) \<and> distinct (groups_of pre) \<and>
            path f \<in> set (map path pre) \<longrightarrow>
            filter' h src sec =
              Inl (ValueError (sec @ '': '' @ path f @ '' matched multiple times!''))) \<and>
         (sel = pre @ f # post \<and> distinct (map path pre) \<and> distinct (groups_of pre) \<and>
            path f \<notin> set (map path pre) \<and> group f = Some gf \<and> gf \<in> set (groups_of pre) \<longrightarrow>
            filter' h src sec =
              Inl (ValueError (sec @ '': group='' @ gf @ '' matched multiple times!''))) \<and>
         (\<not> distinct (map path sel) \<or> \<not> distinct (groups_of sel) \<longrightarrow>
            (\<exists>pre f post. sel = pre @ f # post \<and> distinct (map path pre) \<and>
               distinct (groups_of pre) \<and>
               (path f \<in> set (map path pre) \<or>
                (\<exists>g. group f = Some g \<and> g \<in> set (groups_of pre)))))"
proof (intro conjI impI)
  assume a: "sel = pre @ f # post \<and> distinct (map path pre) \<and> distinct (groups_of pre) \<and>
            path f \<in> set (map path pre)"
  then have "scan sec {} {} (pre @ f # post) =
      scan sec ({} \<union> set (map path pre)) ({} \<union> set (groups_of pre)) (f # post)"
    by (intro scan_append) simp_all
  with a have "scan sec {} {} sel =
      Inl (ValueError (sec @ '': '' @ path f @ '' matched multiple times!''))"
    by simp
  then show "filter' h src sec =
      Inl (ValueError (sec @ '': '' @ path f @ '' matched multiple times!''))"
    by (simp add: filter'_unfold sel)
next
  assume a: "sel = pre @ f # post \<and> distinct (map path pre) \<and> distinct (groups_of pre) \<and>
            path f \<notin> set (map path pre) \<and> group f = Some gf \<and> gf \<in> set (groups_of pre)"
  then have "scan sec {} {} (pre @ f # post) =
      scan sec ({} \<union> set (map path pre)) ({} \<union> set (groups_of pre)) (f # post)"
    by (intro scan_append) simp_all
  with a have "scan sec {} {} sel =
      Inl (ValueError (sec @ '': group='' @ gf @ '' matched multiple times!''))"
    by simp
  then show "filter' h src sec =
      Inl (ValueError (sec @ '': group='' @ gf @ '' matched multiple times!''))"
    by (simp add: filter'_unfold sel)
next
  assume "\<not> distinct (map path sel) \<or> \<not> distinct (groups_of sel)"
  then show "\<exists>pre f post. sel = pre @ f # post \<and> distinct (map path pre) \<and>
               distinct (groups_of pre) \<and>
               (path f \<in> set (map path pre) \<or>
                (\<exists>g. group f = Some g \<and> g \<in> set (groups_of pre)))"
    by (rule first_conflict_exists)
qed

text \<open>
  C3, amended.  Let \<open>sel\<close> be the selected descriptors, and let \<open>f\<close> be the first descriptor
  of \<open>sel\<close> whose path or whose group is on a descriptor before it (no path and no group
  repeats in \<open>pre\<close>, the descriptors before \<open>f\<close>).  When the path of \<open>f\<close> is in \<open>pre\<close>, \<^verbatim>\<open>_filter\<close>
  fails with the error that names this path, whether or not its group is in \<open>pre\<close> too;
  otherwise its group is in \<open>pre\<close>, and \<^verbatim>\<open>_filter\<close> fails with the error that names this group.
  There is such an \<open>f\<close> whenever a path or a group repeats in \<open>sel\<close>.  So: when a path repeats
  and no group does, the error names the first path that repeats; when a group repeats and no
  path does, the first group that repeats; in each case the path or group named occurs more
  than once.  Two descriptors with the same path, no group and no marker fail with the error
  that names their path, whatever their other fields.
\<close>

theorem filter'_conflict:
  assumes sel: "sel = filter (applies (default_env h)) src"
  shows "((sel = pre @ f # post \<and> distinct (map path pre) \<and> distinct (groups_of pre) \<and>
            path f \<in> set (map path pre) \<longrightarrow>
            filter' h src sec =
              Inl (ValueError (sec @ '': '' @ path f @ '' matched multiple times!''))) \<and>
         (sel = pre @ f # post \<and> distinct (map path pre) \<and> distinct (groups_of pre) \<and>
            path f \<notin> set (map path pre) \<and> group f = Some gf \<and> gf \<in> set (groups_of pre) \<longrightarrow>
            filter' h src sec =
              Inl (ValueError (sec @ '': group='' @ gf @ '' matched multiple times!''))) \<and>
         (\<not> distinct (map path sel) \<or> \<not> distinct (groups_of sel) \<longrightarrow>
            (\<exists>pre f post. sel = pre @ f # post \<and> distinct (map path pre) \<and>
               distinct (groups_of pre) \<and>
               (path f \<in> set (map path pre) \<or>
                (\<exists>g. group f = Some g \<and> g \<in> set (groups_of pre)))))) \<and>
        ((first_repeated [] (map path sel) = Some p \<and> distinct (groups_of sel) \<longrightarrow>
            filter' h src sec =
              Inl (ValueError (sec @ '': '' @ p @ '' matched multiple times!''))) \<and>
         (distinct (map path sel) \<and> first_repeated [] (groups_of sel) = Some g \<longrightarrow>
            filter' h src sec =
              Inl (ValueError (sec @ '': group='' @ g @ '' matched multiple times!''))) \<and>
         (\<not> distinct (map path sel) \<or> \<not> distinct (groups_of sel) \<longrightarrow>
            (\<exists>p'. 1 < count_list (map path sel) p' \<and> filter' h src sec =
               Inl (ValueError (sec @ '': '' @ p' @ '' matched multiple times!''))) \<or>
            (\<exists>g'. 1 < count_list (groups_of sel) g' \<and> filter' h src sec =
               Inl (ValueError (sec @ '': group='' @ g' @ '' matched multiple times!'')))) \<and>
         (path f1 = path f2 \<and> group f1 = None \<and> group f2 = None \<and> markers f1 = [] \<and>
            markers f2 = [] \<longrightarrow>
            filter' h [f1, f2] sec =
              Inl (ValueError (sec @ '': '' @ path f1 @ '' matched multiple times!''))))"
  using conflict_first [OF sel] conflict_derived [OF sel] by (rule conjI)

theorem filter'_conflict_witness:
  "filter' example_host [plain_file ''a'' ''u1'', plain_file ''a'' ''u2''] ''example'' =
     Inl (ValueError ''example: a matched multiple times!'') \<and>
   filter' example_host
       [grouped_file ''a'' ''g'' marker_linux, grouped_file ''b'' ''g'' marker_posix] ''example'' =
     Inl (ValueError ''example: group=g matched multiple times!'') \<and>
   filter' example_host
       [grouped_file ''a'' ''g'' marker_linux, grouped_file ''a'' ''g'' marker_posix] ''example'' =
     Inl (ValueError ''example: a matched multiple times!'')"
proof -
  let ?s1 = "[plain_file ''a'' ''u1'', plain_file ''a'' ''u2'']"
  let ?s2 = "[grouped_file ''a'' ''g'' marker_linux, grouped_file ''b'' ''g'' marker_posix]"
  let ?s3 = "[grouped_file ''a'' ''g'' marker_linux, grouped_file ''a'' ''g'' marker_posix]"
  have sel1: "?s1 = filter (applies (default_env example_host)) ?s1"
    by (simp add: applies_def example_defs)
  have sel2: "?s2 = filter (applies (default_env example_host)) ?s2"
    by (simp add: applies_def example_defs)
  have sel3: "?s3 = filter (applies (default_env example_host)) ?s3"
    by (simp add: applies_def example_defs)
  have h1: "first_repeated [] (map path ?s1) = Some ''a'' \<and> distinct (groups_of ?s1)"
    by (simp add: example_defs)
  have h2: "?s2 = [grouped_file ''a'' ''g'' marker_linux] @ grouped_file ''b'' ''g'' marker_posix # [] \<and>
      distinct (map path [grouped_file ''a'' ''g'' marker_linux]) \<and>
      distinct (groups_of [grouped_file ''a'' ''g'' marker_linux]) \<and>
      path (grouped_file ''b'' ''g'' marker_posix) \<notin>
        set (map path [grouped_file ''a'' ''g'' marker_linux]) \<and>
      group (grouped_file ''b'' ''g'' marker_posix) = Some ''g'' \<and>
      ''g'' \<in> set (groups_of [grouped_file ''a'' ''g'' marker_linux])"
    by (simp add: example_defs)
  have h3: "?s3 = [grouped_file ''a'' ''g'' marker_linux] @ grouped_file ''a'' ''g'' marker_posix # [] \<and>
      distinct (map path [grouped_file ''a'' ''g'' marker_linux]) \<and>
      distinct (groups_of [grouped_file ''a'' ''g'' marker_linux]) \<and>
      path (grouped_file ''a'' ''g'' marker_posix) \<in>
        set (map path [grouped_file ''a'' ''g'' marker_linux])"
    by (simp add: example_defs)
  from filter'_conflict [OF sel1, where p = "''a''" and sec = "''example''"] h1
  have c1: "filter' example_host ?s1 ''example'' =
      Inl (ValueError (''example'' @ '': '' @ ''a'' @ '' matched multiple times!''))"
    by blast
  from filter'_conflict [OF sel2, where sec = "''example''"
      and pre = "[grouped_file ''a'' ''g'' marker_linux]"
      and f = "grouped_file ''b'' ''g'' marker_posix" and post = "[]" and gf = "''g''"] h2
  have c2: "filter' example_host ?s2 ''example'' =
      Inl (ValueError (''example'' @ '': group='' @ ''g'' @ '' matched multiple times!''))"
    by blast
  from filter'_conflict [OF sel3, where sec = "''example''"
      and pre = "[grouped_file ''a'' ''g'' marker_linux]"
      and f = "grouped_file ''a'' ''g'' marker_posix" and post = "[]"] h3
  have c3: "filter' example_host ?s3 ''example'' =
      Inl (ValueError (''example'' @ '': '' @ path (grouped_file ''a'' ''g'' marker_posix) @
        '' matched multiple times!''))"
    by blast
  from c1 c2 c3 show ?thesis by (simp add: example_defs)
qed

text \<open>
  C2, as stated, fails: below the group \<^verbatim>\<open>g\<close> is on a descriptor of the input and on none of
  the selected ones, and the error is the one of the path \<^verbatim>\<open>a\<close> that is selected twice.
\<close>

theorem filter'_unsupported_counterexample:
  "''g'' \<in> set (groups_of
       [plain_file ''a'' ''u1'', plain_file ''a'' ''u2'', grouped_file ''b'' ''g'' marker_win32]) \<and>
   ''g'' \<notin> set (groups_of (filter (applies (default_env example_host))
       [plain_file ''a'' ''u1'', plain_file ''a'' ''u2'', grouped_file ''b'' ''g'' marker_win32])) \<and>
   filter' example_host
       [plain_file ''a'' ''u1'', plain_file ''a'' ''u2'', grouped_file ''b'' ''g'' marker_win32]
       ''example'' =
     Inl (ValueError ''example: a matched multiple times!'')"
  by (simp add: filter'_def applies_def example_defs evaluate_def map_filter_simps)

text \<open>
  C2, amended.  Let \<open>sel\<close> be the selected descriptors.  When no path and no group repeats in
  \<open>sel\<close>, and a group of the input is on no descriptor of \<open>sel\<close>, \<^verbatim>\<open>_filter\<close> fails with the
  error \<open>unsupported\<close> that names the least such group in the order of strings, with the three
  values of the host.  For two descriptors of one group, each with one marker of one pair on the
  same key with different values, exactly the descriptor whose value the environment has at
  that key is returned, and \<^verbatim>\<open>_filter\<close> fails with that error when it has neither.
\<close>

theorem filter'_unsupported:
  assumes sel: "sel = filter (applies (default_env h)) src"
  shows "(distinct (map path sel) \<and> distinct (groups_of sel) \<and>
            g \<in> set (groups_of src) \<and> g \<notin> set (groups_of sel) \<longrightarrow>
            (\<exists>g0. g0 \<in> set (groups_of src) \<and> g0 \<notin> set (groups_of sel) \<and>
               (\<forall>g'. g' \<in> set (groups_of src) \<and> g' \<notin> set (groups_of sel) \<longrightarrow> g0 \<le> g') \<and>
               filter' h src sec = Inl (unsupported h g0))) \<and>
         (group f1 = Some gn \<and> group f2 = Some gn \<and> markers f1 = [m1] \<and> markers f2 = [m2] \<and>
            parts m1 = [(k, v1)] \<and> parts m2 = [(k, v2)] \<and> v1 \<noteq> v2 \<longrightarrow>
            (default_env h k = v1 \<longrightarrow> filter' h [f1, f2] sec = Inr [f1]) \<and>
            (default_env h k = v2 \<longrightarrow> filter' h [f1, f2] sec = Inr [f2]) \<and>
            (default_env h k \<noteq> v1 \<and> default_env h k \<noteq> v2 \<longrightarrow>
               filter' h [f1, f2] sec = Inl (unsupported h gn)))"
proof (intro conjI impI)
  assume a: "distinct (map path sel) \<and> distinct (groups_of sel) \<and>
            g \<in> set (groups_of src) \<and> g \<notin> set (groups_of sel)"
  let ?sg = "set (groups_of sel)"
  let ?gs = "sort (remdups (groups_of src))"
  from a have sc: "scan sec {} {} sel = Inr ?sg" by (simp add: scan_empty_Inr)
  from a have "g \<in> set ?gs \<and> g \<notin> ?sg" by simp
  then have "find (\<lambda>g. g \<notin> ?sg) ?gs \<noteq> None" by (auto simp: find_None_iff)
  then obtain g0 where g0: "find (\<lambda>g. g \<notin> ?sg) ?gs = Some g0" by blast
  have "sorted ?gs" by simp
  from find_sorted_least [OF this g0]
  have l: "g0 \<notin> ?sg" "g0 \<in> set ?gs" "\<forall>g' \<in> set ?gs. g' \<notin> ?sg \<longrightarrow> g0 \<le> g'" by auto
  from g0 have "check_groups h ?sg ?gs = Inl (unsupported h g0)" by (simp add: check_groups_find)
  with sc have "filter' h src sec = Inl (unsupported h g0)" by (simp add: filter'_unfold sel)
  with l show "\<exists>g0. g0 \<in> set (groups_of src) \<and> g0 \<notin> set (groups_of sel) \<and>
               (\<forall>g'. g' \<in> set (groups_of src) \<and> g' \<notin> set (groups_of sel) \<longrightarrow> g0 \<le> g') \<and>
               filter' h src sec = Inl (unsupported h g0)"
    by (intro exI [of _ g0]) simp
next
  assume "group f1 = Some gn \<and> group f2 = Some gn \<and> markers f1 = [m1] \<and> markers f2 = [m2] \<and>
            parts m1 = [(k, v1)] \<and> parts m2 = [(k, v2)] \<and> v1 \<noteq> v2"
    and "default_env h k = v1"
  then show "filter' h [f1, f2] sec = Inr [f1]"
    by (auto simp: filter'_def evaluate_def map_filter_simps)
next
  assume "group f1 = Some gn \<and> group f2 = Some gn \<and> markers f1 = [m1] \<and> markers f2 = [m2] \<and>
            parts m1 = [(k, v1)] \<and> parts m2 = [(k, v2)] \<and> v1 \<noteq> v2"
    and "default_env h k = v2"
  then show "filter' h [f1, f2] sec = Inr [f2]"
    by (auto simp: filter'_def evaluate_def map_filter_simps)
next
  assume "group f1 = Some gn \<and> group f2 = Some gn \<and> markers f1 = [m1] \<and> markers f2 = [m2] \<and>
            parts m1 = [(k, v1)] \<and> parts m2 = [(k, v2)] \<and> v1 \<noteq> v2"
    and "default_env h k \<noteq> v1 \<and> default_env h k \<noteq> v2"
  then show "filter' h [f1, f2] sec = Inl (unsupported h gn)"
    by (auto simp: filter'_def evaluate_def map_filter_simps unsupported_def)
qed

theorem filter'_unsupported_witness:
  "filter' example_host
       [grouped_file ''zz'' ''g2'' marker_win32, grouped_file ''b'' ''g1'' marker_win32] ''example'' =
     Inl (unsupported example_host ''g1'') \<and>
   filter' example_host
       [grouped_file ''bin.py'' ''bin-binary'' marker_win32,
        grouped_file ''bin'' ''bin-binary'' marker_linux] ''example'' =
     Inr [grouped_file ''bin'' ''bin-binary'' marker_linux]"
proof -
  let ?s1 = "[grouped_file ''zz'' ''g2'' marker_win32, grouped_file ''b'' ''g1'' marker_win32]"
  have sel1: "[] = filter (applies (default_env example_host)) ?s1"
    by (simp add: applies_def example_defs)
  have h1: "distinct (map path ([] :: File list)) \<and> distinct (groups_of []) \<and>
      ''g2'' \<in> set (groups_of ?s1) \<and> ''g2'' \<notin> set (groups_of [])"
    by (simp add: example_defs map_filter_simps)
  from filter'_unsupported [OF sel1, where g = "''g2''" and sec = "''example''"] h1
  obtain g0 where g0: "g0 \<in> set (groups_of ?s1)"
      "\<forall>g'. g' \<in> set (groups_of ?s1) \<and> g' \<notin> set (groups_of []) \<longrightarrow> g0 \<le> g'"
      "filter' example_host ?s1 ''example'' = Inl (unsupported example_host g0)"
    by blast
  from g0(2) have "g0 \<le> ''g1''" by (simp add: example_defs map_filter_simps)
  with g0(1) have "g0 = ''g1''" by (auto simp: example_defs map_filter_simps)
  with g0(3) have c1: "filter' example_host ?s1 ''example'' = Inl (unsupported example_host ''g1'')"
    by simp
  have h2: "group (grouped_file ''bin.py'' ''bin-binary'' marker_win32) = Some ''bin-binary'' \<and>
      group (grouped_file ''bin'' ''bin-binary'' marker_linux) = Some ''bin-binary'' \<and>
      markers (grouped_file ''bin.py'' ''bin-binary'' marker_win32) = [marker_win32] \<and>
      markers (grouped_file ''bin'' ''bin-binary'' marker_linux) = [marker_linux] \<and>
      parts marker_win32 = [(sys_platform, ''win32'')] \<and>
      parts marker_linux = [(sys_platform, ''linux'')] \<and> ''win32'' \<noteq> ''linux''"
    by (simp add: example_defs)
  have h3: "default_env example_host sys_platform = ''linux''" by (simp add: example_defs)
  from filter'_unsupported [OF sel1, where sec = "''example''"
      and ?f1.0 = "grouped_file ''bin.py'' ''bin-binary'' marker_win32"
      and ?f2.0 = "grouped_file ''bin'' ''bin-binary'' marker_linux"] h2 h3
  have c2: "filter' example_host
       [grouped_file ''bin.py'' ''bin-binary'' marker_win32,
        grouped_file ''bin'' ''bin-binary'' marker_linux] ''example'' =
     Inr [grouped_file ''bin'' ''bin-binary'' marker_linux]"
    by blast
  from c1 c2 show ?thesis by (rule conjI)
qed

section \<open>Properties of the manifest parser\<close>

lemma split_headers_nonempty: "split_headers cur ls \<noteq> []"
  by (induction cur ls rule: split_headers.induct) simp_all

lemma SECTION_split_nonempty: "SECTION_split s \<noteq> []"
  by (simp add: SECTION_split_def split_headers_nonempty)



lemma make_file_Inr:
  assumes "make_file sec pth vals mks = Inr f"
  shows "strategy (archive f) \<in> set [''noop'', ''tar'', ''zip'']"
    and "truthy (group f) \<longleftrightarrow> markers f \<noteq> []"
    and "vals ''extract'' = Some e \<Longrightarrow> e \<in> set [''noop'', ''tar'', ''zip''] \<and> strategy (archive f) = e"
  using assms
  by (auto simp: make_file_def EXTRACT_def Archive_default_def Let_def
      split: option.splits if_splits)


lemma parse_sections_all:
  "parse_sections sec ret xs = Inr fs \<Longrightarrow> \<forall>f \<in> set ret. P f \<Longrightarrow>
   \<forall>pth body f. parse_section sec pth body = Inr f \<longrightarrow> P f \<Longrightarrow> \<forall>f \<in> set fs. P f"
proof (induction sec ret xs rule: parse_sections.induct)
  case (1 sec ret pth body rest)
  from "1.prems"(1) obtain f where f: "parse_section sec pth body = Inr f"
    and r: "parse_sections sec (ret @ [f]) rest = Inr fs"
    by (auto split: sum.splits)
  from f "1.prems"(2,3) have "\<forall>g \<in> set (ret @ [f]). P g" by auto
  with "1.IH" [OF f r] "1.prems"(3) show ?case by blast
qed simp_all

lemma parse_all:
  assumes "parse s sec = Inr fs"
    and "\<forall>pth body f. parse_section sec pth body = Inr f \<longrightarrow> P f"
  shows "\<forall>f \<in> set fs. P f"
proof (cases "SECTION_split (str_strip (case s of None \<Rightarrow> [] | Some t \<Rightarrow> t))")
  case Nil
  with assms(1) show ?thesis by (simp add: parse_def)
next
  case (Cons junk rest)
  with assms(1) have "parse_sections sec [] rest = Inr fs"
    by (simp add: parse_def split: if_splits)
  moreover have "\<forall>f \<in> set []. P f" by simp
  ultimately show ?thesis using assms(2) by (rule parse_sections_all)
qed

lemma parse_section_Inr:
  "parse_section sec pth body = Inr f \<Longrightarrow>
   \<exists>vals mks. parse_lines sec pth Map.empty [] (str_splitlines (str_strip body)) = Inr (vals, mks)
     \<and> make_file sec pth vals mks = Inr f"
  by (auto simp: parse_section_def split: sum.splits)










text \<open>
  C10.  A section with the line \<^verbatim>\<open>group =\<close>, whose value is empty, and no \<^verbatim>\<open>marker\<close> line is
  parsed: its descriptor has the group \<^verbatim>\<open>''\<close>, which is not \<^verbatim>\<open>None\<close>, and no marker.  What the
  check of \<^verbatim>\<open>_parse\<close> does give is \<open>parse_group_marker_pairing\<close>: the group is not empty and
  not \<^verbatim>\<open>None\<close> exactly when there is a marker.
\<close>

theorem parse_empty_group:
  "parse (Some ''[f1]\<newline>url = u\<newline>sha256 = d\<newline>group =\<newline>'') ''example'' =
     Inr [\<lparr>path = ''f1'', url = ''u'', sha256 = ''d'', archive = Archive_default,
           group = Some [], markers = []\<rparr>]"
  by code_simp

lemma parse_group_marker_pairing:
  "parse s sec = Inr fs \<Longrightarrow> \<forall>f \<in> set fs. truthy (group f) \<longleftrightarrow> markers f \<noteq> []"
proof (erule parse_all, intro allI impI)
  fix pth body f assume "parse_section sec pth body = Inr f"
  from parse_section_Inr [OF this] make_file_Inr(2)
  show "truthy (group f) \<longleftrightarrow> markers f \<noteq> []" by blast
qed

section \<open>Properties of the digest check\<close>

lemma hex_plain:
  "c \<in> set ''0123456789abcdefABCDEF'' \<Longrightarrow>
   isascii c \<and> isprintable c \<and> c \<noteq> CHR 0x27 \<and> c \<noteq> CHR 0x22 \<and> c \<noteq> CHR 0x5C"
  by (auto simp: isascii_def isprintable_def)

lemma repr_char_plain:
  "isprintable c \<Longrightarrow> c \<noteq> CHR 0x27 \<Longrightarrow> c \<noteq> CHR 0x5C \<Longrightarrow> repr_char (CHR 0x27) c = [c]"
  by (auto simp: repr_char_def isprintable_def)

lemma str_repr_plain:
  assumes "\<forall>c \<in> set s. isprintable c \<and> c \<noteq> CHR 0x27 \<and> c \<noteq> CHR 0x5C"
  shows "str_repr s = [CHR 0x27] @ s @ [CHR 0x27]"
proof -
  from assms have q: "CHR 0x27 \<notin> set s" by blast
  have "concat (map (repr_char (CHR 0x27)) t) = t"
    if "\<forall>c \<in> set t. isprintable c \<and> c \<noteq> CHR 0x27 \<and> c \<noteq> CHR 0x5C" for t
    using that by (induction t) (simp_all add: repr_char_plain)
  from this [OF assms] have "concat (map (repr_char (CHR 0x27)) s) = s" .
  with q show ?thesis by (simp add: str_repr_def Let_def)
qed

text \<open>
  C4, as stated, fails: the comparison is the equality of the two strings, so the digest of the
  empty body written in upper case, which is the same hexadecimal number, does not pass.
\<close>

theorem digest_check_uppercase:
  "same_hex_ignoring_case ''E3B0C44298FC1C149AFBF4C8996FB92427AE41E4649B934CA495991B7852B855''
     sha256_empty \<and>
   download_check (\<lambda>contents. sha256_empty)
     \<lparr>path = ''f'', url = ''u'',
      sha256 = ''E3B0C44298FC1C149AFBF4C8996FB92427AE41E4649B934CA495991B7852B855'',
      archive = Archive_default, group = None, markers = []\<rparr> [] =
     Inl (ValueError (''f: checksum mismatch got='' @ [CHR 0x27] @ sha256_empty @ [CHR 0x27] @
       '' f.sha256='' @ [CHR 0x27] @
       ''E3B0C44298FC1C149AFBF4C8996FB92427AE41E4649B934CA495991B7852B855'' @ [CHR 0x27]))"
  by code_simp

text \<open>
  C4, amended.  For a digest function that returns lower-case hexadecimal digits, the check
  succeeds if and only if the expected digest of the descriptor is that very string; an
  expected digest that differs from it only in the case of its letters fails.  On a mismatch
  with an expected digest that is ASCII, the error is the \<^verbatim>\<open>ValueError\<close> with the \<^verbatim>\<open>repr\<close> of both
  strings, which for hexadecimal strings are the strings themselves between single quotes.
\<close>

theorem digest_check_exact:
  assumes "set (hexdigest contents) \<subseteq> set ''0123456789abcdef''"
  shows "((\<exists>r. download_check hexdigest f contents = Inr r) \<longleftrightarrow> sha256 f = hexdigest contents) \<and>
         (sha256 f = hexdigest contents \<longrightarrow> download_check hexdigest f contents = Inr contents) \<and>
         (same_hex_ignoring_case (sha256 f) (hexdigest contents) \<and> sha256 f \<noteq> hexdigest contents \<longrightarrow>
            (\<forall>r. download_check hexdigest f contents \<noteq> Inr r)) \<and>
         (sha256 f \<noteq> hexdigest contents \<and> list_all isascii (sha256 f) \<longrightarrow>
            download_check hexdigest f contents =
              Inl (ValueError (path f @ '': checksum mismatch got='' @ str_repr (hexdigest contents) @
                '' f.sha256='' @ str_repr (sha256 f)))) \<and>
         (sha256 f \<noteq> hexdigest contents \<and> set (sha256 f) \<subseteq> set ''0123456789abcdefABCDEF'' \<longrightarrow>
            download_check hexdigest f contents =
              Inl (ValueError (path f @ '': checksum mismatch got='' @ [CHR 0x27] @
                hexdigest contents @ [CHR 0x27] @ '' f.sha256='' @ [CHR 0x27] @ sha256 f @
                [CHR 0x27])))"
proof -
  have sub: "set ''0123456789abcdef'' \<subseteq> set ''0123456789abcdefABCDEF''" by simp
  from assms sub have p: "\<forall>c \<in> set (hexdigest contents).
      isascii c \<and> isprintable c \<and> c \<noteq> CHR 0x27 \<and> c \<noteq> CHR 0x22 \<and> c \<noteq> CHR 0x5C"
    using hex_plain by blast
  then have a: "list_all isascii (hexdigest contents)" by (simp add: list_all_iff)
  from p have r: "str_repr (hexdigest contents) = [CHR 0x27] @ hexdigest contents @ [CHR 0x27]"
    by (intro str_repr_plain) blast
  have general: "sha256 f \<noteq> hexdigest contents \<Longrightarrow> list_all isascii (sha256 f) \<Longrightarrow>
      download_check hexdigest f contents =
        Inl (ValueError (path f @ '': checksum mismatch got='' @ str_repr (hexdigest contents) @
          '' f.sha256='' @ str_repr (sha256 f)))"
    using a by (auto simp: download_check_def compare_digest_def Let_def)
  have hexcase: "download_check hexdigest f contents =
        Inl (ValueError (path f @ '': checksum mismatch got='' @ [CHR 0x27] @
          hexdigest contents @ [CHR 0x27] @ '' f.sha256='' @ [CHR 0x27] @ sha256 f @ [CHR 0x27]))"
    if n: "sha256 f \<noteq> hexdigest contents"
      and h: "set (sha256 f) \<subseteq> set ''0123456789abcdefABCDEF''"
  proof -
    from h have q: "\<forall>c \<in> set (sha256 f).
        isascii c \<and> isprintable c \<and> c \<noteq> CHR 0x27 \<and> c \<noteq> CHR 0x22 \<and> c \<noteq> CHR 0x5C"
      using hex_plain by blast
    then have "list_all isascii (sha256 f)" by (simp add: list_all_iff)
    moreover from q have "str_repr (sha256 f) = [CHR 0x27] @ sha256 f @ [CHR 0x27]"
      by (intro str_repr_plain) blast
    ultimately show ?thesis using general [OF n] r by simp
  qed
  have exact: "(\<exists>r. download_check hexdigest f contents = Inr r) \<longleftrightarrow> sha256 f = hexdigest contents"
    using a by (auto simp: download_check_def compare_digest_def Let_def)
  have ok: "sha256 f = hexdigest contents \<Longrightarrow> download_check hexdigest f contents = Inr contents"
    using a by (auto simp: download_check_def compare_digest_def Let_def)
  from exact ok general hexcase show ?thesis by blast
qed

theorem digest_check_exact_witness:
  "download_check (\<lambda>contents. sha256_empty)
     \<lparr>path = ''share/example/f'', url = ''u'', sha256 = ''deadbeefdeadbeef'',
      archive = Archive_default, group = None, markers = []\<rparr> [] =
     Inl (ValueError (''share/example/f: checksum mismatch got='' @ str_repr sha256_empty @
       '' f.sha256='' @ str_repr ''deadbeefdeadbeef'')) \<and>
   download_check (\<lambda>contents. sha256_empty)
     \<lparr>path = ''share/example/f'', url = ''u'', sha256 = sha256_empty,
      archive = Archive_default, group = None, markers = []\<rparr> [] = Inr []"
proof -
  have h: "set sha256_empty \<subseteq> set ''0123456789abcdef''"
    by (simp add: sha256_empty_def)
  let ?f1 = "\<lparr>path = ''share/example/f'', url = ''u'', sha256 = ''deadbeefdeadbeef'',
      archive = Archive_default, group = None, markers = []\<rparr>"
  let ?f2 = "\<lparr>path = ''share/example/f'', url = ''u'', sha256 = sha256_empty,
      archive = Archive_default, group = None, markers = []\<rparr>"
  have h1: "sha256 ?f1 \<noteq> sha256_empty \<and> list_all isascii (sha256 ?f1)"
    by (simp add: sha256_empty_def isascii_def)
  from digest_check_exact [where hexdigest = "\<lambda>contents. sha256_empty" and contents = "[]"
      and f = ?f1] h h1
  have c1: "download_check (\<lambda>contents. sha256_empty) ?f1 [] =
     Inl (ValueError (path ?f1 @ '': checksum mismatch got='' @ str_repr sha256_empty @
       '' f.sha256='' @ str_repr (sha256 ?f1)))"
    by blast
  have h2: "sha256 ?f2 = sha256_empty" by simp
  from digest_check_exact [where hexdigest = "\<lambda>contents. sha256_empty" and contents = "[]"
      and f = ?f2] h h2
  have c2: "download_check (\<lambda>contents. sha256_empty) ?f2 [] = Inr []" by blast
  from c1 c2 show ?thesis by simp
qed

end
